theory Spec2Isabelle
  imports Complex_Main "HOL-Library.Multiset"
begin

section \<open>Data model\<close>

text \<open>
  The TypeScript sources \<^verbatim>\<open>src/utils/optimizer.ts\<close> and
  \<^verbatim>\<open>src/utils/atlasUnpacker.ts\<close> are embedded as HOL functions.

  A JavaScript \<^verbatim>\<open>number\<close> is a double; it is modelled by the \<^typ>\<open>real\<close> it
  denotes. \<^verbatim>\<open>Math.min\<close>, \<^verbatim>\<open>Math.max\<close>, \<^verbatim>\<open>Math.ceil\<close>, \<^verbatim>\<open>Math.floor\<close> and
  \<^verbatim>\<open>!==\<close> are exact on doubles: they are \<^const>\<open>min\<close>, \<^const>\<open>max\<close>,
  \<^const>\<open>ceiling\<close>, \<^const>\<open>floor\<close> and disequality. The quotient, sum and product of
  the safety buffer (\<^verbatim>\<open>optimizer.ts\<close>, lines 47 to 49) are rounded to the nearest
  double, as IEEE 754 does. The sums of the pixel coordinates of an atlas region are
  sums of integers and are kept exact. NaN and the infinities are outside the model.
  A \<^verbatim>\<open>Blob\<close> or \<^verbatim>\<open>File\<close> is its byte content, a \<^typ>\<open>string\<close>. An optional field
  (\<^verbatim>\<open>sourceWidth?: number\<close>) is an \<^typ>\<open>'a option\<close>.
\<close>

type_synonym number = real
type_synonym Blob = string

subsection \<open>Double precision arithmetic\<close>

text \<open>
  A finite double other than 0 is \<open>m * 2 ^ (e - 52)\<close> with an integer \<open>m\<close> of at most
  53 bits and an exponent \<open>e\<close> from \<open>-1022\<close> to \<open>1023\<close>. The exponent of a real is found
  by halving it down to below 2, at most 1023 times, or by doubling it up to at least 1,
  at most 1022 times, which also gives the subnormal numbers the exponent \<open>-1022\<close>.
\<close>

definition pow2 :: "int \<Rightarrow> real" where
  "pow2 e = (if 0 \<le> e then 2 ^ nat e else 1 / 2 ^ nat (- e))"

fun exponentUp :: "nat \<Rightarrow> real \<Rightarrow> int" where
  "exponentUp 0 v = 0"
| "exponentUp (Suc fuel) v = (if v < 2 then 0 else 1 + exponentUp fuel (v / 2))"

fun exponentDown :: "nat \<Rightarrow> real \<Rightarrow> int" where
  "exponentDown 0 v = 0"
| "exponentDown (Suc fuel) v = (if 1 \<le> v then 0 else 1 + exponentDown fuel (2 * v))"

definition doubleExponent :: "real \<Rightarrow> int" where
  "doubleExponent v =
     (if 1 \<le> \<bar>v\<bar> then exponentUp 1023 \<bar>v\<bar> else - exponentDown 1022 \<bar>v\<bar>)"

text \<open>Rounding to the nearest integer, a tie going to the even one.\<close>

definition roundTiesToEven :: "real \<Rightarrow> int" where
  "roundTiesToEven v =
     (let f = \<lfloor>v\<rfloor>
      in if v - of_int f < 1 / 2 then f
         else if 1 / 2 < v - of_int f then f + 1
         else if even f then f else f + 1)"

text \<open>
  The double nearest to a real: the real is rounded to a multiple of the spacing of
  the doubles of its exponent. A result of magnitude \<open>2 ^ 1024\<close> or more stands for an
  infinity, which is outside the model.
\<close>

definition toDouble :: "real \<Rightarrow> real" where
  "toDouble v =
     (if v = 0 then 0
      else (let ulp = pow2 (doubleExponent v - 52)
            in of_int (roundTiesToEven (v / ulp)) * ulp))"

text \<open>The JavaScript operators \<^verbatim>\<open>/\<close>, \<^verbatim>\<open>+\<close> and \<^verbatim>\<open>*\<close> on doubles.\<close>

definition jsDivide :: "number \<Rightarrow> number \<Rightarrow> number" where
  "jsDivide a b = toDouble (a / b)"

definition jsAdd :: "number \<Rightarrow> number \<Rightarrow> number" where
  "jsAdd a b = toDouble (a + b)"

definition jsMultiply :: "number \<Rightarrow> number \<Rightarrow> number" where
  "jsMultiply a b = toDouble (a * b)"

subsection \<open>Records\<close>

text \<open>The fields of \<^verbatim>\<open>GlobalAssetStat\<close> that \<^verbatim>\<open>calculateOptimizationTargets\<close> reads.\<close>

record GlobalAssetStat =
  lookupKey :: string
  maxRenderWidth :: number
  maxRenderHeight :: number
  maxScaleX :: number
  maxScaleY :: number
  isOverridden :: bool
  overridePercentage :: "number option"

text \<open>
  The value type of the \<^verbatim>\<open>loadedImages\<close> map. Its field \<^verbatim>\<open>file\<close> is written
  \<open>file'\<close>.
\<close>

record LoadedImage =
  width :: number
  height :: number
  sourceWidth :: "number option"
  sourceHeight :: "number option"
  file' :: Blob
  originalPath :: string

text \<open>
  \<^verbatim>\<open>OptimizationTask\<close>. Its field \<^verbatim>\<open>overridePercentage\<close> is named
  \<open>taskOverridePercentage\<close> here, since the stat record has a field of that name.
\<close>

record OptimizationTask =
  fileName :: string
  relativePath :: string
  originalWidth :: number
  originalHeight :: number
  targetWidth :: number
  targetHeight :: number
  blob :: Blob
  maxScaleUsed :: number
  isResize :: bool
  taskOverridePercentage :: "number option"

section \<open>calculateOptimizationTargets\<close>

subsection \<open>The stats lookup\<close>

text \<open>
  \<^verbatim>\<open>stats.forEach(s => statsMap.set(s.lookupKey, s))\<close>: a later entry with the same
  key replaces an earlier one.
\<close>

definition statsMap :: "GlobalAssetStat list \<Rightarrow> (string \<rightharpoonup> GlobalAssetStat)" where
  "statsMap stats = foldl (\<lambda>m s. m(lookupKey s \<mapsto> s)) Map.empty stats"

subsection \<open>Strings\<close>

text \<open>
  \<^verbatim>\<open>String.prototype.lastIndexOf\<close> for a one-character needle: the greatest index
  holding the character, \<open>-1\<close> when there is none. The scan keeps the index of the
  latest occurrence seen.
\<close>

fun lastIndexOf_from :: "string \<Rightarrow> char \<Rightarrow> int \<Rightarrow> int \<Rightarrow> int" where
  "lastIndexOf_from [] c i found = found"
| "lastIndexOf_from (d # s) c i found =
     lastIndexOf_from s c (i + 1) (if d = c then i else found)"

definition lastIndexOf :: "string \<Rightarrow> char \<Rightarrow> int" where
  "lastIndexOf s c = lastIndexOf_from s c 0 (- 1)"

text \<open>\<^verbatim>\<open>s.substring(0, n)\<close>: a negative end is taken as 0, a large one as the length.\<close>

definition substring0 :: "string \<Rightarrow> int \<Rightarrow> string" where
  "substring0 s n = take (nat n) s"

text \<open>Lines 67 to 81: the output file name of a source path.\<close>

definition outputFileName :: "string \<Rightarrow> string" where
  "outputFileName sourcePath =
     (let lastSlashIndex = max (lastIndexOf sourcePath CHR ''/'') (lastIndexOf sourcePath (CHR 0x5C));
          lastDotIndex = lastIndexOf sourcePath CHR ''.'';
          basePath = (if lastDotIndex > lastSlashIndex
                      then substring0 sourcePath lastDotIndex else sourcePath)
      in basePath @ ''.png'')"

subsection \<open>One loaded image\<close>

text \<open>Lines 33 and 34: \<^verbatim>\<open>original.sourceWidth ?? original.width\<close>.\<close>

definition physicalW :: "LoadedImage \<Rightarrow> number" where
  "physicalW original = (case sourceWidth original of Some w \<Rightarrow> w | None \<Rightarrow> width original)"

definition physicalH :: "LoadedImage \<Rightarrow> number" where
  "physicalH original = (case sourceHeight original of Some h \<Rightarrow> h | None \<Rightarrow> height original)"

text \<open>
  Lines 39 to 50: the required size, with or without the safety buffer. The three
  operations of lines 47 to 49 each round to a double.
\<close>

definition bufferMultiplier :: "number \<Rightarrow> number" where
  "bufferMultiplier bufferPercentage = jsAdd 1 (jsDivide bufferPercentage 100)"

definition calculatedW :: "GlobalAssetStat \<Rightarrow> number \<Rightarrow> number" where
  "calculatedW stat bufferPercentage =
     (if isOverridden stat then maxRenderWidth stat
      else of_int \<lceil>jsMultiply (maxRenderWidth stat) (bufferMultiplier bufferPercentage)\<rceil>)"

definition calculatedH :: "GlobalAssetStat \<Rightarrow> number \<Rightarrow> number" where
  "calculatedH stat bufferPercentage =
     (if isOverridden stat then maxRenderHeight stat
      else of_int \<lceil>jsMultiply (maxRenderHeight stat) (bufferMultiplier bufferPercentage)\<rceil>)"

text \<open>Lines 54 to 59: the cap at the physical size, then the clamp to at least 1.\<close>

definition targetW :: "GlobalAssetStat \<Rightarrow> LoadedImage \<Rightarrow> number \<Rightarrow> number" where
  "targetW stat original bufferPercentage =
     max 1 (min (calculatedW stat bufferPercentage) (physicalW original))"

definition targetH :: "GlobalAssetStat \<Rightarrow> LoadedImage \<Rightarrow> number \<Rightarrow> number" where
  "targetH stat original bufferPercentage =
     max 1 (min (calculatedH stat bufferPercentage) (physicalH original))"

text \<open>Lines 63 to 95: the task pushed for a loaded image that has a stat.\<close>

definition planTask :: "GlobalAssetStat \<Rightarrow> LoadedImage \<Rightarrow> number \<Rightarrow> OptimizationTask" where
  "planTask stat original bufferPercentage =
     \<lparr> fileName = outputFileName (originalPath original),
       relativePath = originalPath original,
       originalWidth = physicalW original,
       originalHeight = physicalH original,
       targetWidth = targetW stat original bufferPercentage,
       targetHeight = targetH stat original bufferPercentage,
       blob = file' original,
       maxScaleUsed = max (maxScaleX stat) (maxScaleY stat),
       isResize = (targetW stat original bufferPercentage \<noteq> physicalW original
                   \<or> targetH stat original bufferPercentage \<noteq> physicalH original),
       taskOverridePercentage = overridePercentage stat \<rparr>"

subsection \<open>The loop over the loaded images\<close>

text \<open>
  \<^verbatim>\<open>loadedImages\<close> is a JavaScript \<^verbatim>\<open>Map\<close>; \<^verbatim>\<open>forEach\<close> visits its entries in
  insertion order, so it is the list of its entries in that order. The loop returns
  early for a key without a stat and pushes the task otherwise.
\<close>

fun forEachLoaded ::
  "(string \<rightharpoonup> GlobalAssetStat) \<Rightarrow> number \<Rightarrow> (string \<times> LoadedImage) list
     \<Rightarrow> OptimizationTask list \<Rightarrow> OptimizationTask list" where
  "forEachLoaded sm bufferPercentage [] tasks = tasks"
| "forEachLoaded sm bufferPercentage ((key, original) # rest) tasks =
     (case sm key of
        None \<Rightarrow> forEachLoaded sm bufferPercentage rest tasks
      | Some stat \<Rightarrow>
          forEachLoaded sm bufferPercentage rest (tasks @ [planTask stat original bufferPercentage]))"

subsection \<open>The final sort\<close>

text \<open>
  Line 99: the comparator, and \<^verbatim>\<open>Array.prototype.sort\<close>, which is a stable sort
  (ECMAScript 2019): an element goes before the first later element that the
  comparator does not put before it.
\<close>

definition compareTasks :: "OptimizationTask \<Rightarrow> OptimizationTask \<Rightarrow> int" where
  "compareTasks a b = (if isResize a = isResize b then 0 else if isResize a then - 1 else 1)"

fun insertSorted :: "('a \<Rightarrow> 'a \<Rightarrow> int) \<Rightarrow> 'a \<Rightarrow> 'a list \<Rightarrow> 'a list" where
  "insertSorted cmp a [] = [a]"
| "insertSorted cmp a (b # bs) =
     (if cmp a b \<le> 0 then a # b # bs else b # insertSorted cmp a bs)"

definition arraySort :: "('a \<Rightarrow> 'a \<Rightarrow> int) \<Rightarrow> 'a list \<Rightarrow> 'a list" where
  "arraySort cmp xs = foldr (insertSorted cmp) xs []"

definition calculateOptimizationTargets ::
  "GlobalAssetStat list \<Rightarrow> (string \<times> LoadedImage) list \<Rightarrow> number \<Rightarrow> OptimizationTask list" where
  "calculateOptimizationTargets stats loadedImages bufferPercentage =
     arraySort compareTasks (forEachLoaded (statsMap stats) bufferPercentage loadedImages [])"

section \<open>The browser environment\<close>

text \<open>
  \<^verbatim>\<open>resizeImage\<close> and \<^verbatim>\<open>extractRegion\<close> draw on an HTML canvas. A canvas is its size
  and the list of \<^verbatim>\<open>drawImage\<close> calls made on it, each with the transform that was
  current. The transform is the matrix \<open>(a, b, c, d, e, f)\<close> of the 2D context, which
  sends \<open>(x, y)\<close> to \<open>(a x + c y + e, b x + d y + f)\<close>; \<^verbatim>\<open>translate\<close> and \<^verbatim>\<open>rotate\<close>
  multiply it on the right.
\<close>

type_synonym HTMLImageElement = string

datatype Matrix = Matrix number number number number number number

definition identityMatrix :: Matrix where
  "identityMatrix = Matrix 1 0 0 1 0 0"

fun applyMatrix :: "Matrix \<Rightarrow> number \<times> number \<Rightarrow> number \<times> number" where
  "applyMatrix (Matrix a b c d e f) (px, py) = (a * px + c * py + e, b * px + d * py + f)"

fun translate :: "number \<Rightarrow> number \<Rightarrow> Matrix \<Rightarrow> Matrix" where
  "translate tx ty (Matrix a b c d e f) =
     Matrix a b c d (a * tx + c * ty + e) (b * tx + d * ty + f)"

fun rotate :: "number \<Rightarrow> Matrix \<Rightarrow> Matrix" where
  "rotate angle (Matrix a b c d e f) =
     Matrix (a * cos angle + c * sin angle) (b * cos angle + d * sin angle)
            (c * cos angle - a * sin angle) (d * cos angle - b * sin angle) e f"

text \<open>
  One \<^verbatim>\<open>drawImage\<close> call: the image, the source rectangle (none in the five-argument
  form, which takes the whole image), the destination rectangle \<open>(dx, dy, dw, dh)\<close> in
  the coordinates of the context, and the transform at the call.
\<close>

record DrawCall =
  drawnImage :: HTMLImageElement
  sourceRect :: "(number \<times> number \<times> number \<times> number) option"
  destRect :: "number \<times> number \<times> number \<times> number"
  transform :: Matrix

record Canvas =
  canvasWidth :: number
  canvasHeight :: number
  drawCalls :: "DrawCall list"

text \<open>
  What the browser decides: whether an image decodes (\<^verbatim>\<open>onload\<close> against
  \<^verbatim>\<open>onerror\<close>), whether a canvas of a given size gets a 2D context, what
  \<^verbatim>\<open>canvas.toBlob\<close> hands to its callback (\<^verbatim>\<open>null\<close> is \<open>None\<close>), and the object URL
  made for a blob. \<^verbatim>\<open>URL.revokeObjectURL\<close> has no effect on any result and is left out.
\<close>

record Browser =
  loadImage :: "Blob \<Rightarrow> HTMLImageElement option"
  getContext :: "number \<Rightarrow> number \<Rightarrow> bool"
  toBlob :: "Canvas \<Rightarrow> Blob option"
  createObjectURL :: "Blob \<Rightarrow> string"

section \<open>resizeImage and generateOptimizedZip\<close>

text \<open>
  \<^verbatim>\<open>resizeImage\<close> resolves with \<^verbatim>\<open>null\<close> when the image does not decode or the
  canvas has no context, and with the result of \<^verbatim>\<open>toBlob\<close> otherwise.
\<close>

definition resizeImage :: "Browser \<Rightarrow> Blob \<Rightarrow> number \<Rightarrow> number \<Rightarrow> Blob option" where
  "resizeImage browser b w h =
     (case loadImage browser b of
        None \<Rightarrow> None
      | Some img \<Rightarrow>
          (let cw = of_int \<lfloor>w\<rfloor>; ch = of_int \<lfloor>h\<rfloor>
           in if getContext browser cw ch
              then toBlob browser
                     \<lparr> canvasWidth = cw, canvasHeight = ch,
                       drawCalls = [\<lparr> drawnImage = img, sourceRect = None,
                                      destRect = (0, 0, cw, ch), transform = identityMatrix \<rparr>] \<rparr>
              else None))"

text \<open>
  The JSZip archive is the map from entry names to their data: \<^verbatim>\<open>file(name, data)\<close>
  on a folder stores \<open>data\<close> under the folder's path followed by \<open>name\<close>, replacing an
  entry of that name. \<^verbatim>\<open>zip.folder(name)\<close> with a name that is a string always
  returns the folder, here its path, so the \<^verbatim>\<open>break\<close> of line 149 is kept in the loop
  but never taken; the directory entries JSZip adds are not files and are left out.
  The callback \<^verbatim>\<open>onProgress\<close> is the list of the calls made, in order.
\<close>

definition zipFolder :: "string \<Rightarrow> string option" where
  "zipFolder folderName = Some (folderName @ ''/'')"

record PackState =
  zipFiles :: "string \<rightharpoonup> Blob"
  completed :: nat
  packProgress :: "(nat \<times> nat) list"

text \<open>Lines 155 to 166: the data stored for a task.\<close>

definition zipEntryData :: "Browser \<Rightarrow> OptimizationTask \<Rightarrow> Blob" where
  "zipEntryData browser task =
     (if isResize task
      then (case resizeImage browser (blob task) (targetWidth task) (targetHeight task) of
              Some resizedBlob \<Rightarrow> resizedBlob
            | None \<Rightarrow> blob task)
      else blob task)"

text \<open>Lines 148 to 170: the loop; \<open>tasksLength\<close> is \<^verbatim>\<open>tasks.length\<close>.\<close>

fun zipLoop ::
  "Browser \<Rightarrow> string option \<Rightarrow> nat \<Rightarrow> OptimizationTask list \<Rightarrow> PackState \<Rightarrow> PackState" where
  "zipLoop browser rootFolder tasksLength [] st = st"
| "zipLoop browser rootFolder tasksLength (task # rest) st =
     (case rootFolder of
        None \<Rightarrow> st
      | Some rootPath \<Rightarrow>
          (let zipEntryName = fileName task;
               st1 = st\<lparr>zipFiles := (zipFiles st)(rootPath @ zipEntryName \<mapsto> zipEntryData browser task)\<rparr>;
               st2 = st1\<lparr>completed := completed st1 + 1\<rparr>;
               st3 = st2\<lparr>packProgress := packProgress st2 @ [(completed st2, tasksLength)]\<rparr>
           in zipLoop browser rootFolder tasksLength rest st3))"

text \<open>The result: the entries of the archive, and the calls of \<^verbatim>\<open>onProgress\<close>.\<close>

definition generateOptimizedZip ::
  "Browser \<Rightarrow> OptimizationTask list \<Rightarrow> (string \<rightharpoonup> Blob) \<times> (nat \<times> nat) list" where
  "generateOptimizedZip browser tasks =
     (let rootFolder = zipFolder ''images_optimized'';
          st = zipLoop browser rootFolder (length tasks) tasks
                 \<lparr> zipFiles = Map.empty, completed = 0, packProgress = [] \<rparr>
      in (zipFiles st, packProgress st))"

section \<open>extractRegion and unpackTextures\<close>

text \<open>
  \<^verbatim>\<open>AtlasRegion\<close>. Its fields \<^verbatim>\<open>name\<close>, \<^verbatim>\<open>x\<close>, \<^verbatim>\<open>y\<close>, \<^verbatim>\<open>width\<close>, \<^verbatim>\<open>height\<close>,
  \<^verbatim>\<open>originalWidth\<close> and \<^verbatim>\<open>originalHeight\<close> carry the prefix \<open>region\<close> here.
\<close>

record AtlasRegion =
  regionName :: string
  pageName :: string
  regionX :: number
  regionY :: number
  regionWidth :: number
  regionHeight :: number
  offsetX :: number
  offsetY :: number
  regionOriginalWidth :: number
  regionOriginalHeight :: number
  rotated :: bool

text \<open>\<^verbatim>\<open>UnpackedAsset\<close>, its fields with the prefix \<open>asset\<close>.\<close>

record UnpackedAsset =
  assetName :: string
  assetBlob :: Blob
  assetWidth :: number
  assetHeight :: number
  assetUrl :: string
  assetSourceWidth :: "number option"
  assetSourceHeight :: "number option"

text \<open>
  Lines 92 to 144, once the context exists: the canvas after the drawing. The
  \<^verbatim>\<open>save\<close> and \<^verbatim>\<open>restore\<close> around the drawing put the identity transform back; the
  one \<^verbatim>\<open>drawImage\<close> call is recorded with the transform it was made under.
\<close>

definition renderRegion :: "HTMLImageElement \<Rightarrow> AtlasRegion \<Rightarrow> Canvas" where
  "renderRegion img region =
     (let dx = offsetX region;
          packedHeightInOriginalSpace =
            (if rotated region then regionWidth region else regionHeight region);
          dy = regionOriginalHeight region - (offsetY region + packedHeightInOriginalSpace);
          src = (regionX region, regionY region, regionWidth region, regionHeight region);
          call =
            (if rotated region
             then \<lparr> drawnImage = img, sourceRect = Some src,
                    destRect = (0, 0, regionWidth region, regionHeight region),
                    transform = rotate (- 90 * pi / 180)
                                  (translate dx (dy + regionWidth region) identityMatrix) \<rparr>
             else \<lparr> drawnImage = img, sourceRect = Some src,
                    destRect = (dx, dy, regionWidth region, regionHeight region),
                    transform = identityMatrix \<rparr>)
      in \<lparr> canvasWidth = regionOriginalWidth region,
           canvasHeight = regionOriginalHeight region,
           drawCalls = [call] \<rparr>)"

definition extractRegion :: "Browser \<Rightarrow> HTMLImageElement \<Rightarrow> AtlasRegion \<Rightarrow> Blob option" where
  "extractRegion browser img region =
     (if getContext browser (regionOriginalWidth region) (regionOriginalHeight region)
      then toBlob browser (renderRegion img region)
      else None)"

text \<open>
  Where a \<^verbatim>\<open>drawImage\<close> call lands on the canvas: the four corners of its destination
  rectangle under its transform, and the box \<open>(left, top, width, height)\<close> around them.
\<close>

definition corners :: "DrawCall \<Rightarrow> (number \<times> number) list" where
  "corners call =
     (case destRect call of
        (dx, dy, dw, dh) \<Rightarrow>
          map (applyMatrix (transform call)) [(dx, dy), (dx + dw, dy), (dx, dy + dh), (dx + dw, dy + dh)])"

fun least :: "number list \<Rightarrow> number" where
  "least [] = 0"
| "least [v] = v"
| "least (v # vs) = min v (least vs)"

fun greatest :: "number list \<Rightarrow> number" where
  "greatest [] = 0"
| "greatest [v] = v"
| "greatest (v # vs) = max v (greatest vs)"

definition footprint :: "DrawCall \<Rightarrow> number \<times> number \<times> number \<times> number" where
  "footprint call =
     (let xs = map fst (corners call); ys = map snd (corners call)
      in (least xs, least ys, greatest xs - least xs, greatest ys - least ys))"

subsection \<open>unpackTextures\<close>

text \<open>
  \<^verbatim>\<open>atlasMetadata.values()\<close> is the list of the regions in insertion order.
  \<^verbatim>\<open>pageRegions\<close> is a \<^verbatim>\<open>Map\<close> from page names to arrays, iterated in insertion
  order: the list of its entries. Lines 25 to 32 add each region to the array of its
  page, a new page going last.
\<close>

fun pushRegion :: "AtlasRegion \<Rightarrow> (string \<times> AtlasRegion list) list \<Rightarrow> (string \<times> AtlasRegion list) list" where
  "pushRegion region [] = [(pageName region, [region])]"
| "pushRegion region ((p, rs) # rest) =
     (if p = pageName region then (p, rs @ [region]) # rest
      else (p, rs) # pushRegion region rest)"

definition groupByPage :: "AtlasRegion list \<Rightarrow> (string \<times> AtlasRegion list) list" where
  "groupByPage regions = foldl (\<lambda>pageRegions region. pushRegion region pageRegions) [] regions"

record UnpackState =
  unpacked :: "string \<rightharpoonup> UnpackedAsset"
  processedCount :: nat
  unpackProgress :: "(nat \<times> nat) list"

text \<open>
  \<^verbatim>\<open>if (onProgress) onProgress(processedCount, totalRegions)\<close>; \<open>hasOnProgress\<close> says
  whether the optional callback was given.
\<close>

definition callOnProgress :: "bool \<Rightarrow> nat \<Rightarrow> UnpackState \<Rightarrow> UnpackState" where
  "callOnProgress hasOnProgress totalRegions st =
     (if hasOnProgress
      then st\<lparr>unpackProgress := unpackProgress st @ [(processedCount st, totalRegions)]\<rparr>
      else st)"

text \<open>Lines 67 to 83: the regions of a page whose image has loaded.\<close>

fun processRegions ::
  "Browser \<Rightarrow> bool \<Rightarrow> nat \<Rightarrow> HTMLImageElement \<Rightarrow> AtlasRegion list \<Rightarrow> UnpackState \<Rightarrow> UnpackState" where
  "processRegions browser hasOnProgress totalRegions img [] st = st"
| "processRegions browser hasOnProgress totalRegions img (region # rest) st =
     (let st1 =
            (case extractRegion browser img region of
               None \<Rightarrow> st
             | Some b \<Rightarrow>
                 st\<lparr>unpacked := (unpacked st)(regionName region \<mapsto>
                      \<lparr> assetName = regionName region,
                        assetBlob = b,
                        assetWidth = regionOriginalWidth region,
                        assetHeight = regionOriginalHeight region,
                        assetUrl = createObjectURL browser b,
                        assetSourceWidth = Some (regionOriginalWidth region),
                        assetSourceHeight = Some (regionOriginalHeight region) \<rparr>)\<rparr>);
          st2 = st1\<lparr>processedCount := processedCount st1 + 1\<rparr>
      in processRegions browser hasOnProgress totalRegions img rest
           (callOnProgress hasOnProgress totalRegions st2))"

text \<open>
  Lines 39 to 64: the decoded image of a page, none when the page has no file or the
  file does not decode; both cases skip the page in the same way.
\<close>

definition pageImage :: "Browser \<Rightarrow> (string \<rightharpoonup> Blob) \<Rightarrow> string \<Rightarrow> HTMLImageElement option" where
  "pageImage browser texturePages p =
     (case texturePages p of None \<Rightarrow> None | Some f \<Rightarrow> loadImage browser f)"

text \<open>Lines 38 to 86: the loop over the pages.\<close>

fun processPages ::
  "Browser \<Rightarrow> (string \<rightharpoonup> Blob) \<Rightarrow> bool \<Rightarrow> nat \<Rightarrow> (string \<times> AtlasRegion list) list
     \<Rightarrow> UnpackState \<Rightarrow> UnpackState" where
  "processPages browser texturePages hasOnProgress totalRegions [] st = st"
| "processPages browser texturePages hasOnProgress totalRegions ((p, regions) # rest) st =
     (case pageImage browser texturePages p of
        None \<Rightarrow>
          processPages browser texturePages hasOnProgress totalRegions rest
            (callOnProgress hasOnProgress totalRegions
               (st\<lparr>processedCount := processedCount st + length regions\<rparr>))
      | Some img \<Rightarrow>
          processPages browser texturePages hasOnProgress totalRegions rest
            (processRegions browser hasOnProgress totalRegions img regions st))"

text \<open>The result: the unpacked assets, and the calls of \<^verbatim>\<open>onProgress\<close>.\<close>

definition unpackTextures ::
  "Browser \<Rightarrow> (string \<rightharpoonup> Blob) \<Rightarrow> AtlasRegion list \<Rightarrow> bool
     \<Rightarrow> (string \<rightharpoonup> UnpackedAsset) \<times> (nat \<times> nat) list" where
  "unpackTextures browser texturePages atlasMetadata hasOnProgress =
     (let pageRegions = groupByPage atlasMetadata;
          totalRegions = length atlasMetadata;
          st0 = callOnProgress hasOnProgress totalRegions
                  \<lparr> unpacked = Map.empty, processedCount = 0, unpackProgress = [] \<rparr>;
          st = processPages browser texturePages hasOnProgress totalRegions pageRegions st0
      in (unpacked st, unpackProgress st))"

section \<open>Example inputs\<close>

text \<open>
  A stat and a loaded image with the given sizes, used to run the functions on concrete
  inputs. The loaded image has its physical size in \<^verbatim>\<open>sourceWidth\<close> and
  \<^verbatim>\<open>sourceHeight\<close> and its path as content.
\<close>

definition exampleStat :: "string \<Rightarrow> number \<Rightarrow> number \<Rightarrow> bool \<Rightarrow> GlobalAssetStat" where
  "exampleStat key w h overridden =
     \<lparr> lookupKey = key, maxRenderWidth = w, maxRenderHeight = h,
       maxScaleX = 1, maxScaleY = 1, isOverridden = overridden, overridePercentage = None \<rparr>"

definition exampleImage :: "string \<Rightarrow> number \<Rightarrow> number \<Rightarrow> LoadedImage" where
  "exampleImage path w h =
     \<lparr> width = w, height = h, sourceWidth = Some w, sourceHeight = Some h,
       file' = path, originalPath = path \<rparr>"

text \<open>
  A browser in which every decode, context and encoding succeeds (\<open>True\<close>) or fails
  (\<open>False\<close>); when it succeeds, \<^verbatim>\<open>toBlob\<close> gives the bytes \<open>PNG\<close>.
\<close>

definition exampleBrowser :: "bool \<Rightarrow> Browser" where
  "exampleBrowser ok =
     \<lparr> loadImage = (\<lambda>b. if ok then Some b else None),
       getContext = (\<lambda>w h. ok),
       toBlob = (\<lambda>canvas. if ok then Some ''PNG'' else None),
       createObjectURL = (\<lambda>b. ''blob:'' @ b) \<rparr>"

text \<open>A \<^verbatim>\<open>texturePages\<close> map without any page.\<close>

definition noTexturePages :: "string \<rightharpoonup> Blob" where
  "noTexturePages = Map.empty"

text \<open>The region of the specification's example, with a name, a page and a rotation flag.\<close>

definition exampleRegion :: "string \<Rightarrow> string \<Rightarrow> bool \<Rightarrow> AtlasRegion" where
  "exampleRegion n p r =
     \<lparr> regionName = n, pageName = p, regionX = 0, regionY = 0,
       regionWidth = 50, regionHeight = 30, offsetX = 5, offsetY = 10,
       regionOriginalWidth = 80, regionOriginalHeight = 60, rotated = r \<rparr>"

text \<open>A task with the given path, original size and target size.\<close>

definition exampleTask :: "string \<Rightarrow> number \<Rightarrow> number \<Rightarrow> number \<Rightarrow> number \<Rightarrow> OptimizationTask" where
  "exampleTask path w h tw th =
     \<lparr> fileName = path, relativePath = path, originalWidth = w, originalHeight = h,
       targetWidth = tw, targetHeight = th, blob = ''original '' @ path, maxScaleUsed = 1,
       isResize = (tw \<noteq> w \<or> th \<noteq> h), taskOverridePercentage = None \<rparr>"

section \<open>Properties of the planner\<close>

lemma statsMap_foldl_dom:
  "dom (foldl (\<lambda>m s. m(lookupKey s \<mapsto> s)) m0 stats) = dom m0 \<union> lookupKey ` set stats"
  by (induction stats arbitrary: m0) auto

lemma dom_statsMap: "dom (statsMap stats) = lookupKey ` set stats"
  by (simp add: statsMap_def statsMap_foldl_dom)

lemma statsMap_None_iff: "statsMap stats key = None \<longleftrightarrow> key \<notin> lookupKey ` set stats"
proof -
  have "statsMap stats key = None \<longleftrightarrow> key \<notin> dom (statsMap stats)"
    by (simp add: domIff)
  then show ?thesis by (simp add: dom_statsMap)
qed

lemma forEachLoaded_map_filter:
  "forEachLoaded sm b loaded tasks =
     tasks @ List.map_filter (\<lambda>(key, original). map_option (\<lambda>stat. planTask stat original b) (sm key)) loaded"
  by (induction loaded arbitrary: tasks) (auto split: option.splits)

lemma insertSorted_resized:
  "isResize t \<Longrightarrow> insertSorted compareTasks t ts = t # ts"
  by (cases ts) (simp_all add: compareTasks_def)

lemma insertSorted_unresized_skip:
  "\<not> isResize t \<Longrightarrow> list_all isResize rs \<Longrightarrow>
     insertSorted compareTasks t (rs @ ns) = rs @ insertSorted compareTasks t ns"
  by (induction rs) (simp_all add: compareTasks_def)

lemma insertSorted_unresized_front:
  "\<not> isResize t \<Longrightarrow> list_all (\<lambda>n. \<not> isResize n) ns \<Longrightarrow>
     insertSorted compareTasks t ns = t # ns"
  by (cases ns) (simp_all add: compareTasks_def)

lemma arraySort_compareTasks:
  "arraySort compareTasks ts = filter isResize ts @ filter (\<lambda>t. \<not> isResize t) ts"
proof (induction ts)
  case Nil
  show ?case by (simp add: arraySort_def)
next
  case (Cons t ts)
  have step: "arraySort compareTasks (t # ts) = insertSorted compareTasks t (arraySort compareTasks ts)"
    by (simp add: arraySort_def)
  show ?case
  proof (cases "isResize t")
    case True
    then show ?thesis using Cons.IH step by (simp add: insertSorted_resized)
  next
    case False
    have rs: "list_all isResize (filter isResize ts)"
      by (simp add: list_all_iff)
    have ns: "list_all (\<lambda>n. \<not> isResize n) (filter (\<lambda>t. \<not> isResize t) ts)"
      by (simp add: list_all_iff)
    show ?thesis
      using False Cons.IH step insertSorted_unresized_skip [OF False rs]
        insertSorted_unresized_front [OF False ns]
      by simp
  qed
qed

lemma set_map_filter: "set (List.map_filter f xs) = {y. \<exists>x \<in> set xs. f x = Some y}"
  by (induction xs) (auto split: option.splits)

lemma set_calculateOptimizationTargets:
  "set (calculateOptimizationTargets stats loaded b) =
     {planTask stat original b | key original stat.
        (key, original) \<in> set loaded \<and> statsMap stats key = Some stat}"
proof -
  have "set (calculateOptimizationTargets stats loaded b) =
          set (List.map_filter (\<lambda>(key, original).
                 map_option (\<lambda>stat. planTask stat original b) (statsMap stats key)) loaded)"
    by (auto simp: calculateOptimizationTargets_def arraySort_compareTasks forEachLoaded_map_filter)
  also have "\<dots> = {planTask stat original b | key original stat.
        (key, original) \<in> set loaded \<and> statsMap stats key = Some stat}"
    by (force simp: set_map_filter)
  finally show ?thesis .
qed

lemma exponentUp_numeral:
  "exponentUp (numeral k) v = (if v < 2 then 0 else 1 + exponentUp (pred_numeral k) (v / 2))"
  by (simp add: numeral_eq_Suc)

lemma exponentDown_numeral:
  "exponentDown (numeral k) v = (if 1 \<le> v then 0 else 1 + exponentDown (pred_numeral k) (2 * v))"
  by (simp add: numeral_eq_Suc)

lemmas double_defs = jsDivide_def jsAdd_def jsMultiply_def toDouble_def doubleExponent_def
  roundTiesToEven_def pow2_def exponentUp_numeral exponentDown_numeral Let_def

text \<open>The required sizes of the example inputs, with a buffer of 0 and of 10.\<close>

lemma double_values:
  "\<lceil>jsMultiply 0 (jsAdd 1 (jsDivide 0 100))\<rceil> = 0"
  "\<lceil>jsMultiply 8 (jsAdd 1 (jsDivide 0 100))\<rceil> = 8"
  "\<lceil>jsMultiply 10 (jsAdd 1 (jsDivide 0 100))\<rceil> = 10"
  "\<lceil>jsMultiply 32 (jsAdd 1 (jsDivide 0 100))\<rceil> = 32"
  "\<lceil>jsMultiply 64 (jsAdd 1 (jsDivide 0 100))\<rceil> = 64"
  "\<lceil>jsMultiply 100 (jsAdd 1 (jsDivide 0 100))\<rceil> = 100"
  "\<lceil>jsMultiply 256 (jsAdd 1 (jsDivide 0 100))\<rceil> = 256"
  "\<lceil>jsMultiply 512 (jsAdd 1 (jsDivide 0 100))\<rceil> = 512"
  "\<lceil>jsMultiply 100 (jsAdd 1 (jsDivide 10 100))\<rceil> = 111"
  "\<lceil>jsMultiply 120 (jsAdd 1 (jsDivide 10 100))\<rceil> = 132"
  "\<lceil>jsMultiply 256 (jsAdd 1 (jsDivide 10 100))\<rceil> = 282"
  "\<lceil>jsMultiply 512 (jsAdd 1 (jsDivide 10 100))\<rceil> = 564"
  by (simp_all add: double_defs)

lemmas plan_defs = planTask_def targetW_def targetH_def calculatedW_def calculatedH_def
  physicalW_def physicalH_def bufferMultiplier_def double_values

lemmas calc_defs = calculateOptimizationTargets_def arraySort_def statsMap_def compareTasks_def

lemmas example_defs = exampleStat_def exampleImage_def

subsection \<open>Claim C1: the target of an image that is not overridden\<close>

text \<open>
  The claim gives the target as \<open>min (ceil (maxRenderDim * (1 + buffer / 100))) physicalDim\<close>.
  The code then clamps the target to at least 1 (lines 58 and 59), so the two differ
  when that minimum is below 1: a stat with \<open>maxRenderWidth = 0\<close> on a 100 by 100
  image gets the target width 1, where the claim's formula gives 0, in double precision
  as in exact arithmetic.
\<close>

theorem C1_counterexample:
  "map targetWidth (calculateOptimizationTargets [exampleStat ''a'' 0 0 False]
       [(''a'', exampleImage ''a.png'' 100 100)] 0) = [1]
   \<and> min (real_of_int \<lceil>jsMultiply (maxRenderWidth (exampleStat ''a'' 0 0 False))
                          (jsAdd 1 (jsDivide 0 100))\<rceil>)
         (physicalW (exampleImage ''a.png'' 100 100)) = 0
   \<and> min (real_of_int \<lceil>maxRenderWidth (exampleStat ''a'' 0 0 False) * (1 + 0 / 100)\<rceil>)
         (physicalW (exampleImage ''a.png'' 100 100)) = 0"
  by (simp add: calc_defs plan_defs example_defs)

text \<open>
  Claim C1, amended: for every loaded image whose stat entry has
  \<open>isOverridden = false\<close>, \<open>calculateOptimizationTargets\<close> produces the task of that
  image, and its target is, per axis,
  \<open>max 1 (min (ceil (maxRenderDim * (1 + bufferPercentage / 100))) physicalDim)\<close>, where
  the quotient, the sum and the product are those of JavaScript, each rounded to the
  nearest double.
\<close>

theorem C1_buffered_target:
  assumes "(key, original) \<in> set loadedImages"
    and "statsMap stats key = Some stat"
    and "\<not> isOverridden stat"
  shows "planTask stat original b \<in> set (calculateOptimizationTargets stats loadedImages b)
    \<and> targetWidth (planTask stat original b) =
        max 1 (min (of_int \<lceil>jsMultiply (maxRenderWidth stat) (jsAdd 1 (jsDivide b 100))\<rceil>)
                   (physicalW original))
    \<and> targetHeight (planTask stat original b) =
        max 1 (min (of_int \<lceil>jsMultiply (maxRenderHeight stat) (jsAdd 1 (jsDivide b 100))\<rceil>)
                   (physicalH original))"
proof -
  have "planTask stat original b \<in> set (calculateOptimizationTargets stats loadedImages b)"
    unfolding set_calculateOptimizationTargets using assms(1,2) by blast
  moreover have "targetWidth (planTask stat original b) =
        max 1 (min (of_int \<lceil>jsMultiply (maxRenderWidth stat) (jsAdd 1 (jsDivide b 100))\<rceil>)
                   (physicalW original))"
    using assms(3) by (simp add: planTask_def targetW_def calculatedW_def bufferMultiplier_def)
  moreover have "targetHeight (planTask stat original b) =
        max 1 (min (of_int \<lceil>jsMultiply (maxRenderHeight stat) (jsAdd 1 (jsDivide b 100))\<rceil>)
                   (physicalH original))"
    using assms(3) by (simp add: planTask_def targetH_def calculatedH_def bufferMultiplier_def)
  ultimately show ?thesis by simp
qed

text \<open>
  The example of the claim: \<open>maxRenderWidth = 512\<close>, \<open>maxRenderHeight = 256\<close>, a
  physical size of 1024 by 512 and a buffer of 10 give the target 564 by 282, and
  \<open>isResize\<close> is true. With \<open>maxRenderWidth = 100\<close> and the same buffer the product
  is the double just above 110 and the target width is 111, as in JavaScript; with
  \<open>maxRenderHeight = 120\<close> it is 132.
\<close>

theorem C1_witness:
  "(''hero'', exampleImage ''characters/hero.png'' 1024 512)
      \<in> set [(''hero'', exampleImage ''characters/hero.png'' 1024 512)]
   \<and> statsMap [exampleStat ''hero'' 512 256 False] ''hero'' = Some (exampleStat ''hero'' 512 256 False)
   \<and> \<not> isOverridden (exampleStat ''hero'' 512 256 False)
   \<and> planTask (exampleStat ''hero'' 512 256 False) (exampleImage ''characters/hero.png'' 1024 512) 10
      \<in> set (calculateOptimizationTargets [exampleStat ''hero'' 512 256 False]
               [(''hero'', exampleImage ''characters/hero.png'' 1024 512)] 10)
   \<and> targetWidth (planTask (exampleStat ''hero'' 512 256 False)
        (exampleImage ''characters/hero.png'' 1024 512) 10) = 564
   \<and> targetHeight (planTask (exampleStat ''hero'' 512 256 False)
        (exampleImage ''characters/hero.png'' 1024 512) 10) = 282
   \<and> isResize (planTask (exampleStat ''hero'' 512 256 False)
        (exampleImage ''characters/hero.png'' 1024 512) 10)
   \<and> jsMultiply 100 (jsAdd 1 (jsDivide 10 100)) = 110 + 1 / 2 ^ 46
   \<and> targetWidth (planTask (exampleStat ''hero'' 100 120 False)
        (exampleImage ''characters/hero.png'' 1024 512) 10) = 111
   \<and> targetHeight (planTask (exampleStat ''hero'' 100 120 False)
        (exampleImage ''characters/hero.png'' 1024 512) 10) = 132"
proof -
  have h1: "(''hero'', exampleImage ''characters/hero.png'' 1024 512)
      \<in> set [(''hero'', exampleImage ''characters/hero.png'' 1024 512)]"
    by simp
  have h2: "statsMap [exampleStat ''hero'' w h False] ''hero'' = Some (exampleStat ''hero'' w h False)"
    for w h
    by (simp add: statsMap_def exampleStat_def)
  have h3: "\<not> isOverridden (exampleStat ''hero'' w h False)" for w h
    by (simp add: exampleStat_def)
  have m: "jsMultiply 100 (jsAdd 1 (jsDivide 10 100)) = 110 + 1 / 2 ^ 46"
    by (simp add: double_defs)
  show ?thesis
    using C1_buffered_target [OF h1 h2 h3, of 512 256 10]
      C1_buffered_target [OF h1 h2 h3, of 100 120 10] h2 h3 m
    by (simp add: plan_defs example_defs)
qed

subsection \<open>Claim C2: the target of an overridden image\<close>

text \<open>
  The claim says that an override never upscales. The clamp to at least 1 comes after
  the cap (lines 54 to 59), so an image whose physical size is 0 by 0 (the caller
  stores \<^verbatim>\<open>asset.width || 0\<close> as \<^verbatim>\<open>sourceWidth\<close>) gets the target 1 by 1, above its
  physical size, and \<open>isResize\<close> is true.
\<close>

theorem C2_counterexample:
  "map targetWidth (calculateOptimizationTargets [exampleStat ''a'' 200 200 True]
       [(''a'', exampleImage ''a.png'' 0 0)] 0) = [1]
   \<and> map originalWidth (calculateOptimizationTargets [exampleStat ''a'' 200 200 True]
       [(''a'', exampleImage ''a.png'' 0 0)] 0) = [0]
   \<and> map isResize (calculateOptimizationTargets [exampleStat ''a'' 200 200 True]
       [(''a'', exampleImage ''a.png'' 0 0)] 0) = [True]"
  by (simp add: calc_defs plan_defs example_defs)

text \<open>
  Claim C2, amended: for every loaded image whose stat entry has
  \<open>isOverridden = true\<close>, \<open>calculateOptimizationTargets\<close> produces the task of that
  image with the target \<open>max 1 (min maxRenderDim physicalDim)\<close> per axis: the
  required size is \<open>maxRenderWidth\<close> and \<open>maxRenderHeight\<close> as given, the buffer
  percentage does not occur, and the target is at most the physical dimension
  whenever that dimension is at least 1.
\<close>

theorem C2_override_target:
  assumes "(key, original) \<in> set loadedImages"
    and "statsMap stats key = Some stat"
    and "isOverridden stat"
  shows "planTask stat original b \<in> set (calculateOptimizationTargets stats loadedImages b)
    \<and> targetWidth (planTask stat original b) = max 1 (min (maxRenderWidth stat) (physicalW original))
    \<and> targetHeight (planTask stat original b) = max 1 (min (maxRenderHeight stat) (physicalH original))
    \<and> (1 \<le> physicalW original \<longrightarrow> targetWidth (planTask stat original b) \<le> physicalW original)
    \<and> (1 \<le> physicalH original \<longrightarrow> targetHeight (planTask stat original b) \<le> physicalH original)"
proof -
  have "planTask stat original b \<in> set (calculateOptimizationTargets stats loadedImages b)"
    unfolding set_calculateOptimizationTargets using assms(1,2) by blast
  moreover have w: "targetWidth (planTask stat original b) =
        max 1 (min (maxRenderWidth stat) (physicalW original))"
    using assms(3) by (simp add: planTask_def targetW_def calculatedW_def)
  moreover have h: "targetHeight (planTask stat original b) =
        max 1 (min (maxRenderHeight stat) (physicalH original))"
    using assms(3) by (simp add: planTask_def targetH_def calculatedH_def)
  moreover have "1 \<le> physicalW original \<longrightarrow> targetWidth (planTask stat original b) \<le> physicalW original"
    unfolding w by simp
  moreover have "1 \<le> physicalH original \<longrightarrow> targetHeight (planTask stat original b) \<le> physicalH original"
    unfolding h by simp
  ultimately show ?thesis by simp
qed

text \<open>
  The example of the claim: an override of 200 by 200 on a physical size of 150 by
  150 gives the target 150 by 150, and \<open>isResize\<close> is false.
\<close>

theorem C2_witness:
  "(''icon'', exampleImage ''icon.png'' 150 150) \<in> set [(''icon'', exampleImage ''icon.png'' 150 150)]
   \<and> statsMap [exampleStat ''icon'' 200 200 True] ''icon'' = Some (exampleStat ''icon'' 200 200 True)
   \<and> isOverridden (exampleStat ''icon'' 200 200 True)
   \<and> 1 \<le> physicalW (exampleImage ''icon.png'' 150 150)
   \<and> 1 \<le> physicalH (exampleImage ''icon.png'' 150 150)
   \<and> planTask (exampleStat ''icon'' 200 200 True) (exampleImage ''icon.png'' 150 150) 10
      \<in> set (calculateOptimizationTargets [exampleStat ''icon'' 200 200 True]
               [(''icon'', exampleImage ''icon.png'' 150 150)] 10)
   \<and> targetWidth (planTask (exampleStat ''icon'' 200 200 True) (exampleImage ''icon.png'' 150 150) 10) = 150
   \<and> targetHeight (planTask (exampleStat ''icon'' 200 200 True) (exampleImage ''icon.png'' 150 150) 10) = 150
   \<and> \<not> isResize (planTask (exampleStat ''icon'' 200 200 True) (exampleImage ''icon.png'' 150 150) 10)"
proof -
  have h1: "(''icon'', exampleImage ''icon.png'' 150 150) \<in> set [(''icon'', exampleImage ''icon.png'' 150 150)]"
    by simp
  have h2: "statsMap [exampleStat ''icon'' 200 200 True] ''icon'' = Some (exampleStat ''icon'' 200 200 True)"
    by (simp add: statsMap_def exampleStat_def)
  have h3: "isOverridden (exampleStat ''icon'' 200 200 True)"
    by (simp add: exampleStat_def)
  show ?thesis
    using C2_override_target [OF h1 h2 h3, of 10] h2 h3
    by (simp add: plan_defs example_defs)
qed

subsection \<open>Claim C3: the invariant of a task\<close>





lemma mset_calculateOptimizationTargets:
  "mset (calculateOptimizationTargets stats loaded b) =
     mset (List.map_filter (\<lambda>(key, original).
             map_option (\<lambda>stat. planTask stat original b) (statsMap stats key)) loaded)"
proof -
  have "mset (filter isResize ts) + mset (filter (\<lambda>t. \<not> isResize t) ts) = mset ts"
    for ts :: "OptimizationTask list"
    by (induction ts) simp_all
  then show ?thesis
    by (simp add: calculateOptimizationTargets_def arraySort_compareTasks forEachLoaded_map_filter)
qed

lemma map_filter_app:
  "List.map_filter f (xs @ ys) = List.map_filter f xs @ List.map_filter f ys"
  by (induction xs) (auto split: option.splits)

lemma map_filter_stats:
  "List.map_filter (\<lambda>(key, original). map_option (\<lambda>stat. planTask stat original b) (statsMap stats key)) loaded
   = map (\<lambda>(key, original). planTask (the (statsMap stats key)) original b)
       (filter (\<lambda>(key, original). key \<in> lookupKey ` set stats) loaded)"
proof (induction loaded)
  case Nil
  show ?case by simp
next
  case (Cons e loaded)
  obtain key original where e: "e = (key, original)" by (cases e)
  show ?case
  proof (cases "statsMap stats key")
    case None
    then have "key \<notin> lookupKey ` set stats" by (simp add: statsMap_None_iff)
    with None Cons.IH e show ?thesis by simp
  next
    case (Some stat)
    then have "key \<in> lookupKey ` set stats" using statsMap_None_iff [of stats key] by simp
    with Some Cons.IH e show ?thesis by simp
  qed
qed

subsection \<open>Claim C5: images without a stat\<close>

text \<open>
  Claim C5: the tasks are, up to their order, the tasks of the loaded images whose key
  is the \<open>lookupKey\<close> of a stat, one task for each such image, whatever the buffer
  percentage; a loaded image whose key has no stat produces no task, so that the
  result is the same with and without it.
\<close>

theorem C5_unused_excluded:
  "mset (calculateOptimizationTargets stats loadedImages b) =
     mset (map (\<lambda>(key, original). planTask (the (statsMap stats key)) original b)
            (filter (\<lambda>(key, original). key \<in> lookupKey ` set stats) loadedImages))
   \<and> (key \<notin> lookupKey ` set stats \<longrightarrow>
        calculateOptimizationTargets stats (before @ (key, original) # after) b =
        calculateOptimizationTargets stats (before @ after) b)"
proof -
  have "statsMap stats key = None" if "key \<notin> lookupKey ` set stats"
    using that by (simp add: statsMap_None_iff)
  then have "key \<notin> lookupKey ` set stats \<longrightarrow>
        calculateOptimizationTargets stats (before @ (key, original) # after) b =
        calculateOptimizationTargets stats (before @ after) b"
    by (simp add: calculateOptimizationTargets_def forEachLoaded_map_filter map_filter_app)
  then show ?thesis
    by (simp add: mset_calculateOptimizationTargets map_filter_stats)
qed

text \<open>
  A loaded image \<open>unused\<close> without a stat next to one with a stat: the only task is
  the one of the image with the stat.
\<close>

theorem C5_witness:
  "''unused'' \<notin> lookupKey ` set [exampleStat ''hero'' 512 256 False]
   \<and> map relativePath (calculateOptimizationTargets [exampleStat ''hero'' 512 256 False]
        ([(''hero'', exampleImage ''characters/hero.png'' 1024 512)]
          @ (''unused'', exampleImage ''unused.png'' 64 64) # []) 10)
      = [''characters/hero.png'']
   \<and> calculateOptimizationTargets [exampleStat ''hero'' 512 256 False]
        ([(''hero'', exampleImage ''characters/hero.png'' 1024 512)]
          @ (''unused'', exampleImage ''unused.png'' 64 64) # []) 10
      = calculateOptimizationTargets [exampleStat ''hero'' 512 256 False]
        ([(''hero'', exampleImage ''characters/hero.png'' 1024 512)] @ []) 10"
proof -
  have h: "''unused'' \<notin> lookupKey ` set [exampleStat ''hero'' 512 256 False]"
    by (simp add: exampleStat_def)
  have r: "map relativePath (calculateOptimizationTargets [exampleStat ''hero'' 512 256 False]
        ([(''hero'', exampleImage ''characters/hero.png'' 1024 512)] @ []) 10)
      = [''characters/hero.png'']"
    by (simp add: calc_defs planTask_def example_defs)
  show ?thesis
    using C5_unused_excluded [of "[exampleStat ''hero'' 512 256 False]"
        "[(''hero'', exampleImage ''characters/hero.png'' 1024 512)]" 10 "''unused''"
        "[(''hero'', exampleImage ''characters/hero.png'' 1024 512)]"
        "exampleImage ''unused.png'' 64 64" "[]"] h r
    by simp
qed

subsection \<open>Claim C6: the order of the tasks\<close>

text \<open>
  Claim C6: the list returned is the stable partition of the constructed tasks, which
  are the tasks of the loaded images that have a stat in the iteration order of
  \<open>loadedImages\<close>: the tasks with \<open>isResize = true\<close> in that order, followed by the
  tasks with \<open>isResize = false\<close> in that order.
\<close>

theorem C6_stable_partition:
  "calculateOptimizationTargets stats loadedImages b =
     filter isResize
       (List.map_filter (\<lambda>(key, original).
          map_option (\<lambda>stat. planTask stat original b) (statsMap stats key)) loadedImages)
     @ filter (\<lambda>t. \<not> isResize t)
       (List.map_filter (\<lambda>(key, original).
          map_option (\<lambda>stat. planTask stat original b) (statsMap stats key)) loadedImages)"
  by (simp add: calculateOptimizationTargets_def arraySort_compareTasks forEachLoaded_map_filter)

text \<open>
  The example of the claim: four loaded images \<open>R1\<close> to \<open>R4\<close> whose tasks have
  \<open>isResize\<close> false, true, false, true come out in the order \<open>R2, R4, R1, R3\<close>.
\<close>

theorem C6_witness:
  "map relativePath
     (List.map_filter (\<lambda>(key, original).
        map_option (\<lambda>stat. planTask stat original 0)
          (statsMap [exampleStat ''r1'' 64 64 False, exampleStat ''r2'' 32 32 False,
                     exampleStat ''r3'' 64 64 False, exampleStat ''r4'' 32 32 False] key))
       [(''r1'', exampleImage ''R1'' 64 64), (''r2'', exampleImage ''R2'' 64 64),
        (''r3'', exampleImage ''R3'' 64 64), (''r4'', exampleImage ''R4'' 64 64)])
     = [''R1'', ''R2'', ''R3'', ''R4'']
   \<and> map isResize
     (List.map_filter (\<lambda>(key, original).
        map_option (\<lambda>stat. planTask stat original 0)
          (statsMap [exampleStat ''r1'' 64 64 False, exampleStat ''r2'' 32 32 False,
                     exampleStat ''r3'' 64 64 False, exampleStat ''r4'' 32 32 False] key))
       [(''r1'', exampleImage ''R1'' 64 64), (''r2'', exampleImage ''R2'' 64 64),
        (''r3'', exampleImage ''R3'' 64 64), (''r4'', exampleImage ''R4'' 64 64)])
     = [False, True, False, True]
   \<and> map relativePath
     (calculateOptimizationTargets
        [exampleStat ''r1'' 64 64 False, exampleStat ''r2'' 32 32 False,
         exampleStat ''r3'' 64 64 False, exampleStat ''r4'' 32 32 False]
        [(''r1'', exampleImage ''R1'' 64 64), (''r2'', exampleImage ''R2'' 64 64),
         (''r3'', exampleImage ''R3'' 64 64), (''r4'', exampleImage ''R4'' 64 64)] 0)
     = [''R2'', ''R4'', ''R1'', ''R3'']"
  using C6_stable_partition
     [of "[exampleStat ''r1'' 64 64 False, exampleStat ''r2'' 32 32 False,
           exampleStat ''r3'' 64 64 False, exampleStat ''r4'' 32 32 False]"
         "[(''r1'', exampleImage ''R1'' 64 64), (''r2'', exampleImage ''R2'' 64 64),
           (''r3'', exampleImage ''R3'' 64 64), (''r4'', exampleImage ''R4'' 64 64)]" 0]
  by (simp add: statsMap_def plan_defs example_defs)

subsection \<open>The last index of a character\<close>

lemma lastIndexOf_from_absent:
  "c \<notin> set s \<Longrightarrow> lastIndexOf_from s c i found = found"
  by (induction s arbitrary: i found) auto

lemma lastIndexOf_from_append_absent:
  "c \<notin> set e \<Longrightarrow> lastIndexOf_from (d @ e) c i found = lastIndexOf_from d c i found"
  by (induction d arbitrary: i found) (auto simp: lastIndexOf_from_absent)

lemma lastIndexOf_from_last:
  "c \<notin> set e \<Longrightarrow> lastIndexOf_from (d @ c # e) c i found = i + int (length d)"
  by (induction d arbitrary: i found) (auto simp: lastIndexOf_from_absent)

lemma lastIndexOf_from_range:
  "found < i \<Longrightarrow> lastIndexOf_from s c i found = found
     \<or> (i \<le> lastIndexOf_from s c i found \<and> lastIndexOf_from s c i found < i + int (length s))"
proof (induction s arbitrary: i found)
  case Nil
  show ?case by simp
next
  case (Cons d s)
  show ?case
  proof (cases "d = c")
    case True
    have "i < i + 1" by simp
    from Cons.IH [OF this, of ] True show ?thesis by (auto simp add: )
  next
    case False
    have "found < i + 1" using Cons.prems by simp
    from Cons.IH [OF this] False show ?thesis by auto
  qed
qed

lemma lastIndexOf_from_occurrence:
  "found < i \<Longrightarrow> i + int (length d) \<le> lastIndexOf_from (d @ c # e) c i found"
proof (induction d arbitrary: i found)
  case Nil
  have "i < i + 1" by simp
  from lastIndexOf_from_range [OF this, of e c] show ?case by auto
next
  case (Cons x d)
  have "(if x = c then i else found) < i + 1" using Cons.prems by simp
  from Cons.IH [OF this] show ?case by simp
qed

lemma lastIndexOf_absent: "c \<notin> set s \<Longrightarrow> lastIndexOf s c = - 1"
  by (simp add: lastIndexOf_def lastIndexOf_from_absent)

lemma lastIndexOf_last: "c \<notin> set e \<Longrightarrow> lastIndexOf (d @ c # e) c = int (length d)"
  by (simp add: lastIndexOf_def lastIndexOf_from_last)

lemma lastIndexOf_append_absent: "c \<notin> set e \<Longrightarrow> lastIndexOf (d @ e) c = lastIndexOf d c"
  by (simp add: lastIndexOf_def lastIndexOf_from_append_absent)

lemma lastIndexOf_less: "lastIndexOf s c < int (length s)"
  using lastIndexOf_from_range [of "- 1" 0 s c] by (auto simp: lastIndexOf_def)

lemma lastIndexOf_ge: "- 1 \<le> lastIndexOf s c"
  using lastIndexOf_from_range [of "- 1" 0 s c] by (auto simp: lastIndexOf_def)

lemma lastIndexOf_occurrence: "int (length d) \<le> lastIndexOf (d @ c # e) c"
  using lastIndexOf_from_occurrence [of "- 1" 0 d c e] by (simp add: lastIndexOf_def)

lemma outputFileName_extension:
  assumes "CHR ''.'' \<notin> set e" and "CHR ''/'' \<notin> set e" and "CHR 0x5C \<notin> set e"
  shows "outputFileName (d @ ''.'' @ e) = d @ ''.png''"
proof -
  have dot: "lastIndexOf (d @ CHR ''.'' # e) CHR ''.'' = int (length d)"
    using assms(1) by (rule lastIndexOf_last)
  have "lastIndexOf (d @ CHR ''.'' # e) c = lastIndexOf d c" if "c \<notin> set e" "c \<noteq> CHR ''.''" for c
    using lastIndexOf_append_absent [of c "CHR ''.'' # e" d] that by simp
  then have "lastIndexOf (d @ CHR ''.'' # e) CHR ''/'' < int (length d)"
    and "lastIndexOf (d @ CHR ''.'' # e) (CHR 0x5C) < int (length d)"
    using assms(2,3) by (simp_all add: lastIndexOf_less)
  then show ?thesis
    using dot by (simp add: outputFileName_def substring0_def)
qed

lemma outputFileName_no_extension:
  assumes "CHR ''.'' \<notin> set f"
    and "d = [] \<or> last d = CHR ''/'' \<or> last d = CHR 0x5C"
  shows "outputFileName (d @ f) = d @ f @ ''.png''"
proof (cases "d = []")
  case True
  then have "lastIndexOf (d @ f) CHR ''.'' = - 1"
    using assms(1) by (simp add: lastIndexOf_absent)
  then show ?thesis
    using lastIndexOf_ge [of "d @ f" "CHR ''/''"]
    by (simp add: outputFileName_def)
next
  case False
  then obtain d' sep where d: "d = d' @ [sep]" and sep: "sep = CHR ''/'' \<or> sep = CHR 0x5C"
    using assms(2) by (metis append_butlast_last_id)
  have "CHR ''.'' \<notin> set (sep # f)" using assms(1) sep by auto
  then have "lastIndexOf (d' @ sep # f) CHR ''.'' = lastIndexOf d' CHR ''.''"
    by (rule lastIndexOf_append_absent)
  then have dot: "lastIndexOf (d @ f) CHR ''.'' < int (length d')"
    using d by (simp add: lastIndexOf_less)
  have "int (length d') \<le> lastIndexOf (d @ f) sep"
    using lastIndexOf_occurrence [of d' sep f] d by simp
  then have "int (length d') \<le> max (lastIndexOf (d @ f) CHR ''/'') (lastIndexOf (d @ f) (CHR 0x5C))"
    using sep by auto
  then have "\<not> lastIndexOf (d @ f) CHR ''.''
           > max (lastIndexOf (d @ f) CHR ''/'') (lastIndexOf (d @ f) (CHR 0x5C))"
    using dot by linarith
  then show ?thesis
    unfolding outputFileName_def Let_def by (simp only: if_False append_assoc)
qed

subsection \<open>Claim C7: the output file name\<close>

text \<open>
  Claim C7: the \<open>fileName\<close> of a task is the output name of the source path. When the
  path ends in a dot followed by characters that are neither a dot nor a path
  separator, that extension and its dot are replaced by \<open>.png\<close>; when the last
  segment of the path, after the last separator if there is one, holds no dot, the
  path is kept whole and \<open>.png\<close> is appended.
\<close>

theorem C7_output_file_name:
  "fileName (planTask stat original b) = outputFileName (originalPath original)
   \<and> (CHR ''.'' \<notin> set e \<and> CHR ''/'' \<notin> set e \<and> CHR 0x5C \<notin> set e \<longrightarrow>
        outputFileName (d @ ''.'' @ e) = d @ ''.png'')
   \<and> (CHR ''.'' \<notin> set e \<and> (d = [] \<or> last d = CHR ''/'' \<or> last d = CHR 0x5C) \<longrightarrow>
        outputFileName (d @ e) = d @ e @ ''.png'')"
  using outputFileName_extension [of e d] outputFileName_no_extension [of e d]
  by (simp add: planTask_def)

text \<open>
  The examples of the claim: \<open>characters/hero.png\<close> maps to itself and \<open>a.b/c\<close> maps
  to \<open>a.b/c.png\<close>, not to \<open>a.c.png\<close>.
\<close>

theorem C7_witness:
  "CHR ''.'' \<notin> set ''png'' \<and> CHR ''/'' \<notin> set ''png'' \<and> CHR 0x5C \<notin> set ''png''
   \<and> outputFileName ''characters/hero.png'' = ''characters/hero.png''
   \<and> CHR ''.'' \<notin> set ''c'' \<and> last ''a.b/'' = CHR ''/''
   \<and> outputFileName ''a.b/c'' = ''a.b/c.png''
   \<and> outputFileName ''a.b/c'' \<noteq> ''a.c.png''
   \<and> map fileName (calculateOptimizationTargets
         [exampleStat ''hero'' 512 256 False, exampleStat ''c'' 8 8 False]
         [(''hero'', exampleImage ''characters/hero.png'' 1024 512), (''c'', exampleImage ''a.b/c'' 16 16)] 0)
       = [''characters/hero.png'', ''a.b/c.png'']"
proof -
  have calc: "calculateOptimizationTargets
         [exampleStat ''hero'' 512 256 False, exampleStat ''c'' 8 8 False]
         [(''hero'', exampleImage ''characters/hero.png'' 1024 512), (''c'', exampleImage ''a.b/c'' 16 16)] 0
       = [planTask (exampleStat ''hero'' 512 256 False) (exampleImage ''characters/hero.png'' 1024 512) 0,
          planTask (exampleStat ''c'' 8 8 False) (exampleImage ''a.b/c'' 16 16) 0]"
    by (simp add: calc_defs example_defs plan_defs)
  have paths: "originalPath (exampleImage ''characters/hero.png'' 1024 512) = ''characters/hero.png''"
    "originalPath (exampleImage ''a.b/c'' 16 16) = ''a.b/c''"
    by (simp_all add: exampleImage_def)
  show ?thesis
    using C7_output_file_name [of "exampleStat ''hero'' 512 256 False"
        "exampleImage ''characters/hero.png'' 1024 512" 0 "''png''" "''characters/hero''"]
      C7_output_file_name [of "exampleStat ''c'' 8 8 False" "exampleImage ''a.b/c'' 16 16" 0 "''c''" "''a.b/''"]
    by (simp add: calc paths)
qed

subsection \<open>Claim C10: the physical dimensions\<close>

text \<open>
  Claim C10: every produced task is the task of a loaded image with a stat, and its
  \<open>originalWidth\<close> and \<open>originalHeight\<close> are that image's \<open>sourceWidth\<close> and
  \<open>sourceHeight\<close> when defined and its \<open>width\<close> and \<open>height\<close> otherwise; the cap of
  the target and the comparison for \<open>isResize\<close> use the same values.
\<close>

theorem C10_physical_dimensions:
  assumes "t \<in> set (calculateOptimizationTargets stats loadedImages b)"
  shows "\<exists>key original stat.
      (key, original) \<in> set loadedImages \<and> statsMap stats key = Some stat
    \<and> t = planTask stat original b
    \<and> originalWidth t = (case sourceWidth original of Some w \<Rightarrow> w | None \<Rightarrow> width original)
    \<and> originalHeight t = (case sourceHeight original of Some h \<Rightarrow> h | None \<Rightarrow> height original)
    \<and> targetWidth t = max 1 (min (calculatedW stat b) (originalWidth t))
    \<and> targetHeight t = max 1 (min (calculatedH stat b) (originalHeight t))
    \<and> (isResize t \<longleftrightarrow> targetWidth t \<noteq> originalWidth t \<or> targetHeight t \<noteq> originalHeight t)"
proof -
  from assms obtain key original stat
    where mem: "(key, original) \<in> set loadedImages" "statsMap stats key = Some stat"
      and t: "t = planTask stat original b"
    unfolding set_calculateOptimizationTargets by blast
  have "originalWidth t = (case sourceWidth original of Some w \<Rightarrow> w | None \<Rightarrow> width original)"
    and "originalHeight t = (case sourceHeight original of Some h \<Rightarrow> h | None \<Rightarrow> height original)"
    and "targetWidth t = max 1 (min (calculatedW stat b) (originalWidth t))"
    and "targetHeight t = max 1 (min (calculatedH stat b) (originalHeight t))"
    and "isResize t \<longleftrightarrow> targetWidth t \<noteq> originalWidth t \<or> targetHeight t \<noteq> originalHeight t"
    unfolding t by (simp_all add: planTask_def targetW_def targetH_def physicalW_def physicalH_def)
  with mem t show ?thesis by blast
qed

text \<open>
  A loaded image of canonical size 64 by 64 with \<open>sourceWidth\<close> undefined and
  \<open>sourceHeight = 48\<close>: its task has the original size 64 by 48.
\<close>

theorem C10_witness:
  "planTask (exampleStat ''a'' 100 100 False)
      ((exampleImage ''a.png'' 64 64)\<lparr>sourceWidth := None, sourceHeight := Some 48\<rparr>) 0
     \<in> set (calculateOptimizationTargets [exampleStat ''a'' 100 100 False]
          [(''a'', (exampleImage ''a.png'' 64 64)\<lparr>sourceWidth := None, sourceHeight := Some 48\<rparr>)] 0)
   \<and> originalWidth (planTask (exampleStat ''a'' 100 100 False)
        ((exampleImage ''a.png'' 64 64)\<lparr>sourceWidth := None, sourceHeight := Some 48\<rparr>) 0) = 64
   \<and> originalHeight (planTask (exampleStat ''a'' 100 100 False)
        ((exampleImage ''a.png'' 64 64)\<lparr>sourceWidth := None, sourceHeight := Some 48\<rparr>) 0) = 48
   \<and> targetWidth (planTask (exampleStat ''a'' 100 100 False)
        ((exampleImage ''a.png'' 64 64)\<lparr>sourceWidth := None, sourceHeight := Some 48\<rparr>) 0) = 64
   \<and> targetHeight (planTask (exampleStat ''a'' 100 100 False)
        ((exampleImage ''a.png'' 64 64)\<lparr>sourceWidth := None, sourceHeight := Some 48\<rparr>) 0) = 48
   \<and> \<not> isResize (planTask (exampleStat ''a'' 100 100 False)
        ((exampleImage ''a.png'' 64 64)\<lparr>sourceWidth := None, sourceHeight := Some 48\<rparr>) 0)"
proof -
  have h: "planTask (exampleStat ''a'' 100 100 False)
      ((exampleImage ''a.png'' 64 64)\<lparr>sourceWidth := None, sourceHeight := Some 48\<rparr>) 0
     \<in> set (calculateOptimizationTargets [exampleStat ''a'' 100 100 False]
          [(''a'', (exampleImage ''a.png'' 64 64)\<lparr>sourceWidth := None, sourceHeight := Some 48\<rparr>)] 0)"
    by (simp add: calc_defs example_defs)
  show ?thesis
    using C10_physical_dimensions [OF h] h
    by (simp add: plan_defs example_defs)
qed

section \<open>Properties of the packager\<close>

lemma zipLoop_Cons:
  "zipLoop browser (Some rootPath) n (task # tasks) st =
     zipLoop browser (Some rootPath) n tasks
       (st\<lparr> zipFiles := (zipFiles st)(rootPath @ fileName task \<mapsto> zipEntryData browser task),
           completed := completed st + 1,
           packProgress := packProgress st @ [(completed st + 1, n)] \<rparr>)"
  by (simp add: Let_def)

lemma zipLoop_files:
  "zipFiles (zipLoop browser (Some rootPath) n tasks st) =
     zipFiles st ++ map_of (rev (map (\<lambda>task. (rootPath @ fileName task, zipEntryData browser task)) tasks))"
proof (induction tasks arbitrary: st)
  case Nil
  show ?case by simp
next
  case (Cons task tasks)
  let ?k = "rootPath @ fileName task" and ?v = "zipEntryData browser task"
  let ?M = "map_of (rev (map (\<lambda>task. (rootPath @ fileName task, zipEntryData browser task)) tasks))"
  have "(zipFiles st)(?k \<mapsto> ?v) ++ ?M = (zipFiles st ++ [?k \<mapsto> ?v]) ++ ?M"
    by simp
  also have "\<dots> = zipFiles st ++ ([?k \<mapsto> ?v] ++ ?M)"
    by (rule map_add_assoc [symmetric])
  finally show ?case
    unfolding zipLoop_Cons Cons.IH by simp
qed

lemma upt_Suc_shift: "[Suc c ..< Suc c + Suc k] = Suc c # [Suc (Suc c) ..< Suc (Suc c) + k]"
  by (simp add: upt_rec)

lemma zipLoop_progress:
  "packProgress (zipLoop browser (Some rootPath) n tasks st) =
     packProgress st @ map (\<lambda>i. (i, n)) [Suc (completed st) ..< Suc (completed st) + length tasks]"
proof (induction tasks arbitrary: st)
  case Nil
  show ?case by simp
next
  case (Cons task tasks)
  have "[Suc (completed st) ..< Suc (completed st) + length (task # tasks)] =
          Suc (completed st) # [Suc (Suc (completed st)) ..< Suc (Suc (completed st)) + length tasks]"
    using upt_Suc_shift [of "completed st" "length tasks"] by simp
  then show ?case
    unfolding zipLoop_Cons Cons.IH by simp
qed

lemma generateOptimizedZip_files:
  "fst (generateOptimizedZip browser tasks) =
     map_of (rev (map (\<lambda>task. (''images_optimized/'' @ fileName task, zipEntryData browser task)) tasks))"
  by (simp add: generateOptimizedZip_def zipFolder_def zipLoop_files Let_def)

lemma generateOptimizedZip_progress:
  "snd (generateOptimizedZip browser tasks) = map (\<lambda>i. (i, length tasks)) [1 ..< Suc (length tasks)]"
  by (simp add: generateOptimizedZip_def zipFolder_def zipLoop_progress Let_def)

lemma generateOptimizedZip_dom:
  "dom (fst (generateOptimizedZip browser tasks)) =
     (\<lambda>task. ''images_optimized/'' @ fileName task) ` set tasks"
  by (force simp: generateOptimizedZip_files dom_map_of_conv_image_fst)

lemma generateOptimizedZip_distinct:
  assumes "distinct (map fileName tasks)" and "task \<in> set tasks"
  shows "fst (generateOptimizedZip browser tasks) (''images_optimized/'' @ fileName task)
           = Some (zipEntryData browser task)"
proof -
  let ?entries = "map (\<lambda>task. (''images_optimized/'' @ fileName task, zipEntryData browser task)) tasks"
  have "map fst ?entries = map ((@) ''images_optimized/'') (map fileName tasks)"
    by simp
  then have "distinct (map fst ?entries)"
    using assms(1) by (simp only: distinct_map) (auto simp: inj_on_def)
  then have "distinct (map fst (rev ?entries))"
    by (simp add: rev_map [symmetric])
  moreover have "(''images_optimized/'' @ fileName task, zipEntryData browser task) \<in> set (rev ?entries)"
    using assms(2) by auto
  ultimately have "map_of (rev ?entries) (''images_optimized/'' @ fileName task)
      = Some (zipEntryData browser task)"
    by (rule map_of_is_SomeI)
  then show ?thesis by (simp add: generateOptimizedZip_files)
qed

lemma generateOptimizedZip_card:
  assumes "distinct (map fileName tasks)"
  shows "card (dom (fst (generateOptimizedZip browser tasks))) = length tasks"
proof -
  have "card ((\<lambda>task. ''images_optimized/'' @ fileName task) ` set tasks)
          = card (set (map (\<lambda>task. ''images_optimized/'' @ fileName task) tasks))"
    by simp
  also have "distinct (map (\<lambda>task. ''images_optimized/'' @ fileName task) tasks)"
    using assms by (auto simp: distinct_map inj_on_def)
  then have "card (set (map (\<lambda>task. ''images_optimized/'' @ fileName task) tasks)) = length tasks"
    using distinct_card by fastforce
  finally show ?thesis by (simp add: generateOptimizedZip_dom)
qed

subsection \<open>Claim C8: the entries of the archive\<close>

text \<open>
  The claim gives every task its own entry, holding the blob chosen for that task.
  Two loaded images \<open>hero.png\<close> and \<open>hero.jpg\<close> get the same output name
  \<open>hero.png\<close>; the second \<^verbatim>\<open>file\<close> call replaces the entry of the first, so the
  archive has one entry for the two tasks, and it holds the bytes of \<open>hero.jpg\<close>, not
  the original blob of the first task.
\<close>

theorem C8_counterexample:
  "map fileName (calculateOptimizationTargets
       [exampleStat ''hero.png'' 64 64 False, exampleStat ''hero.jpg'' 64 64 False]
       [(''hero.png'', exampleImage ''hero.png'' 64 64), (''hero.jpg'', exampleImage ''hero.jpg'' 64 64)] 0)
     = [''hero.png'', ''hero.png'']
   \<and> map blob (calculateOptimizationTargets
       [exampleStat ''hero.png'' 64 64 False, exampleStat ''hero.jpg'' 64 64 False]
       [(''hero.png'', exampleImage ''hero.png'' 64 64), (''hero.jpg'', exampleImage ''hero.jpg'' 64 64)] 0)
     = [''hero.png'', ''hero.jpg'']
   \<and> map isResize (calculateOptimizationTargets
       [exampleStat ''hero.png'' 64 64 False, exampleStat ''hero.jpg'' 64 64 False]
       [(''hero.png'', exampleImage ''hero.png'' 64 64), (''hero.jpg'', exampleImage ''hero.jpg'' 64 64)] 0)
     = [False, False]
   \<and> fst (generateOptimizedZip (exampleBrowser True) (calculateOptimizationTargets
       [exampleStat ''hero.png'' 64 64 False, exampleStat ''hero.jpg'' 64 64 False]
       [(''hero.png'', exampleImage ''hero.png'' 64 64), (''hero.jpg'', exampleImage ''hero.jpg'' 64 64)] 0))
       ''images_optimized/hero.png'' = Some ''hero.jpg''
   \<and> dom (fst (generateOptimizedZip (exampleBrowser True) (calculateOptimizationTargets
       [exampleStat ''hero.png'' 64 64 False, exampleStat ''hero.jpg'' 64 64 False]
       [(''hero.png'', exampleImage ''hero.png'' 64 64), (''hero.jpg'', exampleImage ''hero.jpg'' 64 64)] 0)))
       = {''images_optimized/hero.png''}"
proof -
  have calc: "calculateOptimizationTargets
       [exampleStat ''hero.png'' 64 64 False, exampleStat ''hero.jpg'' 64 64 False]
       [(''hero.png'', exampleImage ''hero.png'' 64 64), (''hero.jpg'', exampleImage ''hero.jpg'' 64 64)] 0
     = [planTask (exampleStat ''hero.png'' 64 64 False) (exampleImage ''hero.png'' 64 64) 0,
        planTask (exampleStat ''hero.jpg'' 64 64 False) (exampleImage ''hero.jpg'' 64 64) 0]"
    by (simp add: calc_defs example_defs plan_defs)
  have names: "outputFileName ''hero.png'' = ''hero.png''" "outputFileName ''hero.jpg'' = ''hero.png''"
    by (simp_all add: outputFileName_def lastIndexOf_def substring0_def)
  show ?thesis
    unfolding calc
    by (simp add: generateOptimizedZip_def zipFolder_def Let_def zipEntryData_def
        plan_defs example_defs names)
qed

lemma generateOptimizedZip_last:
  assumes "tasks = before @ task # after"
    and "fileName task \<notin> fileName ` set after"
  shows "fst (generateOptimizedZip browser tasks) (''images_optimized/'' @ fileName task)
           = Some (zipEntryData browser task)"
proof -
  let ?f = "\<lambda>task. (''images_optimized/'' @ fileName task, zipEntryData browser task)"
  have none: "map_of (rev (map ?f after)) (''images_optimized/'' @ fileName task) = None"
    using assms(2) by (force simp: map_of_eq_None_iff)
  have "rev (map ?f tasks) = rev (map ?f after) @ ?f task # rev (map ?f before)"
    by (simp add: assms(1))
  then have "map_of (rev (map ?f tasks)) (''images_optimized/'' @ fileName task)
      = Some (zipEntryData browser task)"
    using none by (simp add: map_add_def)
  then show ?thesis by (simp add: generateOptimizedZip_files)
qed

lemma generateOptimizedZip_entries:
  "card (dom (fst (generateOptimizedZip browser tasks))) = card (fileName ` set tasks)"
proof -
  have "(\<lambda>task. ''images_optimized/'' @ fileName task) ` set tasks
          = ((@) ''images_optimized/'') ` (fileName ` set tasks)"
    by auto
  moreover have "card (((@) ''images_optimized/'') ` (fileName ` set tasks)) = card (fileName ` set tasks)"
    by (rule card_image) (simp add: inj_on_def)
  ultimately show ?thesis by (simp add: generateOptimizedZip_dom)
qed

text \<open>
  Claim C8, amended: \<open>generateOptimizedZip\<close> leaves an entry at the \<open>fileName\<close> of
  every task in the list, whatever \<open>resizeImage\<close> returns. The entries are written in
  the order of the list, a later one replacing an earlier one of the same name: the
  entry at the \<open>fileName\<close> of a task that no later task of the list shares holds the
  resized blob if \<open>isResize\<close> is true and \<open>resizeImage\<close> returns one, the task's
  original blob if \<open>isResize\<close> is true and \<open>resizeImage\<close> returns \<^verbatim>\<open>null\<close>, and the
  original blob if \<open>isResize\<close> is false. The archive has as many entries as the list
  has distinct file names, one for each task when the file names are pairwise
  distinct.
\<close>

theorem C8_archive_entries:
  "fst (generateOptimizedZip browser tasks) =
     map_of (rev (map (\<lambda>task. (''images_optimized/'' @ fileName task, zipEntryData browser task)) tasks))
   \<and> (task \<in> set tasks \<longrightarrow>
      fst (generateOptimizedZip browser tasks) (''images_optimized/'' @ fileName task) \<noteq> None)
   \<and> (tasks = before @ task # after \<and> fileName task \<notin> fileName ` set after \<longrightarrow>
        (isResize task \<and> resizeImage browser (blob task) (targetWidth task) (targetHeight task) = Some resized
           \<longrightarrow> fst (generateOptimizedZip browser tasks) (''images_optimized/'' @ fileName task) = Some resized)
      \<and> (isResize task \<and> resizeImage browser (blob task) (targetWidth task) (targetHeight task) = None
           \<longrightarrow> fst (generateOptimizedZip browser tasks) (''images_optimized/'' @ fileName task) = Some (blob task))
      \<and> (\<not> isResize task
           \<longrightarrow> fst (generateOptimizedZip browser tasks) (''images_optimized/'' @ fileName task) = Some (blob task)))
   \<and> card (dom (fst (generateOptimizedZip browser tasks))) = card (fileName ` set tasks)
   \<and> (distinct (map fileName tasks) \<longrightarrow>
        card (dom (fst (generateOptimizedZip browser tasks))) = length tasks)"
proof -
  have "fst (generateOptimizedZip browser tasks) (''images_optimized/'' @ fileName task) \<noteq> None"
    if "task \<in> set tasks"
  proof -
    have "''images_optimized/'' @ fileName task \<in> dom (fst (generateOptimizedZip browser tasks))"
      unfolding generateOptimizedZip_dom using that by blast
    then show ?thesis by blast
  qed
  moreover have "fst (generateOptimizedZip browser tasks) (''images_optimized/'' @ fileName task)
      = Some (zipEntryData browser task)"
    if "tasks = before @ task # after" "fileName task \<notin> fileName ` set after"
    using that by (rule generateOptimizedZip_last)
  moreover have "card (fileName ` set tasks) = length tasks" if "distinct (map fileName tasks)"
    using that distinct_card [of "map fileName tasks"] by simp
  ultimately have rest: "(task \<in> set tasks \<longrightarrow>
      fst (generateOptimizedZip browser tasks) (''images_optimized/'' @ fileName task) \<noteq> None)
   \<and> (tasks = before @ task # after \<and> fileName task \<notin> fileName ` set after \<longrightarrow>
        (isResize task \<and> resizeImage browser (blob task) (targetWidth task) (targetHeight task) = Some resized
           \<longrightarrow> fst (generateOptimizedZip browser tasks) (''images_optimized/'' @ fileName task) = Some resized)
      \<and> (isResize task \<and> resizeImage browser (blob task) (targetWidth task) (targetHeight task) = None
           \<longrightarrow> fst (generateOptimizedZip browser tasks) (''images_optimized/'' @ fileName task) = Some (blob task))
      \<and> (\<not> isResize task
           \<longrightarrow> fst (generateOptimizedZip browser tasks) (''images_optimized/'' @ fileName task) = Some (blob task)))
   \<and> card (dom (fst (generateOptimizedZip browser tasks))) = card (fileName ` set tasks)
   \<and> (distinct (map fileName tasks) \<longrightarrow>
        card (dom (fst (generateOptimizedZip browser tasks))) = length tasks)"
    by (auto simp: zipEntryData_def generateOptimizedZip_entries)
  show ?thesis
    by (rule conjI [OF generateOptimizedZip_files rest])
qed

text \<open>
  Three tasks, the first two with the file name \<open>x.png\<close>: the entry \<open>x.png\<close> holds
  the data of the second, which is the resized bytes when the browser succeeds and its
  original bytes \<open>second\<close> when the resize fails; the third task is not resized and
  keeps its original bytes; the archive has two entries. Two tasks with distinct names
  give two entries.
\<close>

theorem C8_witness:
  "[(exampleTask ''x.png'' 8 8 4 4)\<lparr>blob := ''first''\<rparr>,
    (exampleTask ''x.png'' 8 8 4 4)\<lparr>blob := ''second''\<rparr>,
    exampleTask ''icon.png'' 150 150 150 150]
     = [(exampleTask ''x.png'' 8 8 4 4)\<lparr>blob := ''first''\<rparr>]
       @ (exampleTask ''x.png'' 8 8 4 4)\<lparr>blob := ''second''\<rparr> # [exampleTask ''icon.png'' 150 150 150 150]
   \<and> fileName ((exampleTask ''x.png'' 8 8 4 4)\<lparr>blob := ''second''\<rparr>)
        \<notin> fileName ` set [exampleTask ''icon.png'' 150 150 150 150]
   \<and> isResize ((exampleTask ''x.png'' 8 8 4 4)\<lparr>blob := ''second''\<rparr>)
   \<and> resizeImage (exampleBrowser True) ''second'' 4 4 = Some ''PNG''
   \<and> fst (generateOptimizedZip (exampleBrowser True)
        [(exampleTask ''x.png'' 8 8 4 4)\<lparr>blob := ''first''\<rparr>,
         (exampleTask ''x.png'' 8 8 4 4)\<lparr>blob := ''second''\<rparr>,
         exampleTask ''icon.png'' 150 150 150 150]) ''images_optimized/x.png'' = Some ''PNG''
   \<and> resizeImage (exampleBrowser False) ''second'' 4 4 = None
   \<and> fst (generateOptimizedZip (exampleBrowser False)
        [(exampleTask ''x.png'' 8 8 4 4)\<lparr>blob := ''first''\<rparr>,
         (exampleTask ''x.png'' 8 8 4 4)\<lparr>blob := ''second''\<rparr>,
         exampleTask ''icon.png'' 150 150 150 150]) ''images_optimized/x.png'' = Some ''second''
   \<and> \<not> isResize (exampleTask ''icon.png'' 150 150 150 150)
   \<and> fst (generateOptimizedZip (exampleBrowser False)
        [(exampleTask ''x.png'' 8 8 4 4)\<lparr>blob := ''first''\<rparr>,
         (exampleTask ''x.png'' 8 8 4 4)\<lparr>blob := ''second''\<rparr>,
         exampleTask ''icon.png'' 150 150 150 150]) ''images_optimized/icon.png'' = Some ''original icon.png''
   \<and> card (dom (fst (generateOptimizedZip (exampleBrowser False)
        [(exampleTask ''x.png'' 8 8 4 4)\<lparr>blob := ''first''\<rparr>,
         (exampleTask ''x.png'' 8 8 4 4)\<lparr>blob := ''second''\<rparr>,
         exampleTask ''icon.png'' 150 150 150 150]))) = 2
   \<and> distinct (map fileName [exampleTask ''characters/hero.png'' 1024 512 564 282,
                              exampleTask ''icon.png'' 150 150 150 150])
   \<and> card (dom (fst (generateOptimizedZip (exampleBrowser False)
        [exampleTask ''characters/hero.png'' 1024 512 564 282,
         exampleTask ''icon.png'' 150 150 150 150]))) = 2"
proof -
  let ?first = "(exampleTask ''x.png'' 8 8 4 4)\<lparr>blob := ''first''\<rparr>"
  let ?second = "(exampleTask ''x.png'' 8 8 4 4)\<lparr>blob := ''second''\<rparr>"
  let ?icon = "exampleTask ''icon.png'' 150 150 150 150"
  let ?hero = "exampleTask ''characters/hero.png'' 1024 512 564 282"
  have f: "fileName ?first = ''x.png''" "fileName ?second = ''x.png''" "fileName ?icon = ''icon.png''"
    "fileName ?hero = ''characters/hero.png''"
    "blob ?second = ''second''" "blob ?icon = ''original icon.png''"
    "targetWidth ?second = 4" "targetHeight ?second = 4"
    "isResize ?second" "\<not> isResize ?icon"
    by (simp_all add: exampleTask_def)
  have ok: "resizeImage (exampleBrowser True) ''second'' 4 4 = Some ''PNG''"
    by (simp add: resizeImage_def exampleBrowser_def)
  have ko: "resizeImage (exampleBrowser False) ''second'' 4 4 = None"
    by (simp add: resizeImage_def exampleBrowser_def)
  have names: "fileName ` set [?first, ?second, ?icon] = {''x.png'', ''icon.png''}"
    using f by auto
  have c: "card {''x.png'', ''icon.png''} = 2"
    by simp
  show ?thesis
    using C8_archive_entries [where tasks = "[?first, ?second, ?icon]" and before = "[?first]"
        and task = ?second and after = "[?icon]" and browser = "exampleBrowser True"
        and resized = "''PNG''", THEN conjunct2]
      C8_archive_entries [where tasks = "[?first, ?second, ?icon]" and before = "[?first]"
        and task = ?second and after = "[?icon]" and browser = "exampleBrowser False"
        and resized = "''PNG''", THEN conjunct2]
      C8_archive_entries [where tasks = "[?first, ?second, ?icon]" and before = "[?first, ?second]"
        and task = ?icon and after = "[]" and browser = "exampleBrowser False"
        and resized = "''PNG''", THEN conjunct2]
      C8_archive_entries [where tasks = "[?hero, ?icon]" and before = "[?hero]"
        and task = ?icon and after = "[]" and browser = "exampleBrowser False"
        and resized = "''PNG''", THEN conjunct2]
      ok ko names c
    by (simp add: f)
qed

section \<open>Properties of the unpacker\<close>

lemma processRegions_progress:
  "unpackProgress (processRegions browser True n img rs st) =
     unpackProgress st @ map (\<lambda>i. (i, n)) [Suc (processedCount st) ..< Suc (processedCount st) + length rs]
   \<and> processedCount (processRegions browser True n img rs st) = processedCount st + length rs"
proof (induction rs arbitrary: st)
  case Nil
  show ?case by simp
next
  case (Cons region rs)
  have "[Suc (processedCount st) ..< Suc (processedCount st) + length (region # rs)] =
          Suc (processedCount st) # [Suc (Suc (processedCount st)) ..< Suc (Suc (processedCount st)) + length rs]"
    using upt_Suc_shift [of "processedCount st" "length rs"] by simp
  then show ?case
    by (simp add: Cons.IH Let_def callOnProgress_def split: option.split)
qed

lemma processRegions_silent:
  "unpackProgress (processRegions browser False n img rs st) = unpackProgress st"
  by (induction rs arbitrary: st) (simp_all add: Let_def callOnProgress_def split: option.split)

lemma processPages_silent:
  "unpackProgress (processPages browser texturePages False n groups st) = unpackProgress st"
  by (induction groups arbitrary: st)
     (auto simp: callOnProgress_def processRegions_silent split: option.split)

lemma processPages_Cons:
  "processPages browser texturePages True n ((p, rs) # rest) st =
     processPages browser texturePages True n rest
       (case pageImage browser texturePages p of
          None \<Rightarrow> callOnProgress True n (st\<lparr>processedCount := processedCount st + length rs\<rparr>)
        | Some img \<Rightarrow> processRegions browser True n img rs st)"
  by (simp split: option.split)

lemma page_step:
  assumes st': "st' = (case pageImage browser texturePages p of
          None \<Rightarrow> callOnProgress True n (st\<lparr>processedCount := processedCount st + length rs\<rparr>)
        | Some img \<Rightarrow> processRegions browser True n img rs st)"
  shows "processedCount st' = processedCount st + length rs"
    and "unpackProgress st' = unpackProgress st @
           (if pageImage browser texturePages p = None then [(processedCount st + length rs, n)]
            else map (\<lambda>i. (i, n)) [Suc (processedCount st) ..< Suc (processedCount st) + length rs])"
  unfolding st'
  by (simp_all add: callOnProgress_def processRegions_progress split: option.split)

lemma pushRegion_sizes:
  "sum_list (map (\<lambda>(p, rs). length rs) (pushRegion region groups)) =
     Suc (sum_list (map (\<lambda>(p, rs). length rs) groups))"
  by (induction groups) auto

lemma pushRegion_nonempty:
  "\<forall>(p, rs) \<in> set groups. rs \<noteq> [] \<Longrightarrow> \<forall>(p, rs) \<in> set (pushRegion region groups). rs \<noteq> []"
  by (induction groups) (auto split: if_splits)

lemma foldl_pushRegion:
  "\<forall>(p, rs) \<in> set groups. rs \<noteq> [] \<Longrightarrow>
   sum_list (map (\<lambda>(p, rs). length rs) (foldl (\<lambda>pageRegions region. pushRegion region pageRegions) groups regions))
     = sum_list (map (\<lambda>(p, rs). length rs) groups) + length regions
   \<and> (\<forall>(p, rs) \<in> set (foldl (\<lambda>pageRegions region. pushRegion region pageRegions) groups regions). rs \<noteq> [])"
proof (induction regions arbitrary: groups)
  case Nil
  then show ?case by simp
next
  case (Cons region regions)
  from Cons.IH [OF pushRegion_nonempty [OF Cons.prems]] show ?case
    by (simp add: pushRegion_sizes)
qed

lemma groupByPage_sizes:
  "sum_list (map (\<lambda>(p, rs). length rs) (groupByPage regions)) = length regions"
  using foldl_pushRegion [of "[]" regions] by (simp add: groupByPage_def)

lemma groupByPage_nonempty:
  "\<forall>(p, rs) \<in> set (groupByPage regions). rs \<noteq> []"
  using foldl_pushRegion [of "[]" regions] by (simp add: groupByPage_def)

lemma processPages_count:
  "processedCount (processPages browser texturePages True n groups st) =
     processedCount st + sum_list (map (\<lambda>(p, rs). length rs) groups)"
proof (induction groups arbitrary: st)
  case Nil
  show ?case by simp
next
  case (Cons g groups)
  obtain p rs where g: "g = (p, rs)" by (cases g)
  show ?case
    unfolding g processPages_Cons Cons.IH
    using page_step(1) [OF refl] by simp
qed

lemma processPages_calls:
  "length (unpackProgress (processPages browser texturePages True n groups st)) =
     length (unpackProgress st)
     + sum_list (map (\<lambda>(p, rs). if pageImage browser texturePages p = None then 1 else length rs) groups)"
proof (induction groups arbitrary: st)
  case Nil
  show ?case by simp
next
  case (Cons g groups)
  obtain p rs where g: "g = (p, rs)" by (cases g)
  show ?case
    unfolding g processPages_Cons Cons.IH
    using page_step(2) [OF refl, where st = st and rs = rs and p = p and n = n
        and browser = browser and texturePages = texturePages]
    by (cases "pageImage browser texturePages p") (simp_all del: upt_Suc)
qed

lemma processPages_invariant:
  assumes "\<forall>(p, rs) \<in> set groups. rs \<noteq> []"
    and "unpackProgress st \<noteq> []"
    and "hd (unpackProgress st) = first"
    and "\<forall>c \<in> set (unpackProgress st). snd c = n \<and> fst c \<le> processedCount st"
    and "sorted_wrt (<) (map fst (unpackProgress st))"
    and "fst (last (unpackProgress st)) = processedCount st"
  shows "hd (unpackProgress (processPages browser texturePages True n groups st)) = first
    \<and> (\<forall>c \<in> set (unpackProgress (processPages browser texturePages True n groups st)). snd c = n)
    \<and> sorted_wrt (<) (map fst (unpackProgress (processPages browser texturePages True n groups st)))
    \<and> fst (last (unpackProgress (processPages browser texturePages True n groups st)))
        = processedCount (processPages browser texturePages True n groups st)
    \<and> unpackProgress (processPages browser texturePages True n groups st) \<noteq> []"
  using assms
proof (induction groups arbitrary: st)
  case Nil
  then show ?case by simp
next
  case (Cons g groups)
  obtain p rs where g: "g = (p, rs)" by (cases g)
  have rs: "rs \<noteq> []" using Cons.prems(1) g by simp
  define st' where "st' = (case pageImage browser texturePages p of
          None \<Rightarrow> callOnProgress True n (st\<lparr>processedCount := processedCount st + length rs\<rparr>)
        | Some img \<Rightarrow> processRegions browser True n img rs st)"
  define suffix where "suffix = (if pageImage browser texturePages p = None
            then [(processedCount st + length rs, n)]
            else map (\<lambda>i. (i, n)) [Suc (processedCount st) ..< Suc (processedCount st) + length rs])"
  have count: "processedCount st' = processedCount st + length rs"
    using page_step(1) [OF st'_def] .
  have calls: "unpackProgress st' = unpackProgress st @ suffix"
    using page_step(2) [OF st'_def] by (simp add: suffix_def)
  have len: "0 < length rs" using rs by simp
  have suffix_ne: "suffix \<noteq> []"
    using len by (simp add: suffix_def del: upt_Suc)
  have suffix_range: "\<forall>c \<in> set suffix. snd c = n \<and> processedCount st < fst c \<and> fst c \<le> processedCount st'"
    using len by (cases "pageImage browser texturePages p") (auto simp: suffix_def count simp del: upt_Suc)
  have suffix_sorted: "sorted_wrt (<) (map fst suffix)"
    by (simp add: suffix_def comp_def del: upt_Suc)
  have suffix_last: "fst (last suffix) = processedCount st'"
  proof (cases "pageImage browser texturePages p = None")
    case True
    then show ?thesis by (simp add: suffix_def count)
  next
    case False
    have "[Suc (processedCount st) ..< Suc (processedCount st) + length rs] \<noteq> []"
      using len by (simp del: upt_Suc)
    then have "last (map (\<lambda>i. (i, n)) [Suc (processedCount st) ..< Suc (processedCount st) + length rs])
        = (last [Suc (processedCount st) ..< Suc (processedCount st) + length rs], n)"
      by (rule last_map)
    also have "last [Suc (processedCount st) ..< Suc (processedCount st) + length rs]
        = processedCount st + length rs"
      using len by (simp add: last_upt del: upt_Suc)
    finally show ?thesis using False by (simp add: suffix_def count)
  qed
  have 1: "\<forall>(p, rs) \<in> set groups. rs \<noteq> []" using Cons.prems(1) by simp
  have 2: "unpackProgress st' \<noteq> []" using calls suffix_ne by simp
  have 3: "hd (unpackProgress st') = first" using calls Cons.prems(2,3) by simp
  have 4: "\<forall>c \<in> set (unpackProgress st'). snd c = n \<and> fst c \<le> processedCount st'"
    using calls Cons.prems(4) suffix_range count by auto
  have 5: "sorted_wrt (<) (map fst (unpackProgress st'))"
    using calls Cons.prems(4,5) suffix_sorted suffix_range
    by (fastforce simp: sorted_wrt_append)
  have 6: "fst (last (unpackProgress st')) = processedCount st'"
    using calls suffix_ne suffix_last by simp
  from Cons.IH [OF 1 2 3 4 5 6] show ?case
    unfolding g processPages_Cons st'_def [symmetric] .
qed

lemma reached_once:
  assumes "sorted_wrt (<) (map fst calls)" and "calls \<noteq> []" and "fst (last calls) = (n::nat)"
  shows "length (filter (\<lambda>c. fst c = n) calls) = 1"
proof -
  have d: "distinct (map fst calls)"
    using assms(1) by (simp add: strict_sorted_iff)
  have "n \<in> set (map fst calls)"
    using assms(2,3) last_in_set [of calls] by force
  then have "{x. x = n} \<inter> set (map fst calls) = {n}" by auto
  then have "length (filter (\<lambda>x. x = n) (map fst calls)) = 1"
    using distinct_length_filter [OF d, of "\<lambda>x. x = n"] by simp
  moreover have "length (filter (\<lambda>x. x = n) (map fst calls)) = length (filter (\<lambda>c. fst c = n) calls)"
    by (simp add: filter_map comp_def)
  ultimately show ?thesis by simp
qed

lemma unpackTextures_progress:
  "snd (unpackTextures browser texturePages atlasMetadata True) =
     unpackProgress (processPages browser texturePages True (length atlasMetadata)
       (groupByPage atlasMetadata)
       \<lparr> unpacked = Map.empty, processedCount = 0, unpackProgress = [(0, length atlasMetadata)] \<rparr>)"
  by (simp add: unpackTextures_def Let_def callOnProgress_def)

text \<open>The calls of \<^verbatim>\<open>unpackTextures\<close> one by one, and the pages with their regions.\<close>

lemma upt_0_Suc_map: "map f [0..<Suc k] = f 0 # map (\<lambda>i. f (Suc i)) [0..<k]"
proof -
  have "[0..<Suc k] = 0 # map Suc [0..<k]"
    by (simp add: upt_conv_Cons map_Suc_upt del: upt_Suc)
  then show ?thesis by (simp add: comp_def del: upt_Suc)
qed

lemma processPages_exact:
  "unpackProgress (processPages browser texturePages True n groups st) =
     unpackProgress st @
     concat (map (\<lambda>i. case groups ! i of (p, rs) \<Rightarrow>
        (let before = processedCount st + sum_list (map (\<lambda>(p, rs). length rs) (take i groups))
         in if pageImage browser texturePages p = None then [(before + length rs, n)]
            else map (\<lambda>j. (j, n)) [Suc before ..< Suc before + length rs]))
       [0..<length groups])"
proof (induction groups arbitrary: st)
  case Nil
  show ?case by simp
next
  case (Cons g groups)
  obtain p rs where g: "g = (p, rs)" by (cases g)
  define st' where "st' = (case pageImage browser texturePages p of
          None \<Rightarrow> callOnProgress True n (st\<lparr>processedCount := processedCount st + length rs\<rparr>)
        | Some img \<Rightarrow> processRegions browser True n img rs st)"
  have count: "processedCount st' = processedCount st + length rs"
    using page_step(1) [OF st'_def] .
  have calls: "unpackProgress st' = unpackProgress st @
           (if pageImage browser texturePages p = None then [(processedCount st + length rs, n)]
            else map (\<lambda>i. (i, n)) [Suc (processedCount st) ..< Suc (processedCount st) + length rs])"
    using page_step(2) [OF st'_def] .
  have step: "processPages browser texturePages True n (g # groups) st
          = processPages browser texturePages True n groups st'"
    unfolding g processPages_Cons st'_def ..
  show ?case
    unfolding step Cons.IH [of st'] length_Cons upt_0_Suc_map
    by (simp add: g calls count Let_def add.assoc del: upt_Suc)
qed

lemma pushRegion_pages:
  assumes "distinct pages"
  shows "pushRegion r (map (\<lambda>p. (p, g p)) pages) =
     (if pageName r \<in> set pages
      then map (\<lambda>p. (p, if p = pageName r then g p @ [r] else g p)) pages
      else map (\<lambda>p. (p, g p)) pages @ [(pageName r, [r])])"
  using assms by (induction pages) auto

lemma groupByPage_snoc: "groupByPage (regions @ [r]) = pushRegion r (groupByPage regions)"
  by (simp add: groupByPage_def)

lemma groupByPage_eq:
  "groupByPage regions =
     map (\<lambda>p. (p, filter (\<lambda>r. pageName r = p) regions)) (rev (remdups (rev (map pageName regions))))"
proof (induction regions rule: rev_induct)
  case Nil
  show ?case by (simp add: groupByPage_def)
next
  case (snoc r regions)
  let ?pages = "rev (remdups (rev (map pageName regions)))"
  have d: "distinct ?pages" by simp
  have s: "set ?pages = pageName ` set regions" by simp
  show ?case
  proof (cases "pageName r \<in> pageName ` set regions")
    case True
    then show ?thesis
      unfolding groupByPage_snoc snoc.IH pushRegion_pages [OF d] s
      by auto
  next
    case False
    then have "\<forall>x \<in> set regions. pageName x \<noteq> pageName r"
      by (metis image_eqI)
    then have "filter (\<lambda>x. pageName x = pageName r) regions = []"
      by (simp add: filter_empty_conv)
    with False show ?thesis
      unfolding groupByPage_snoc snoc.IH pushRegion_pages [OF d] s
      by auto
  qed
qed

subsection \<open>Claim C9: the progress calls\<close>

text \<open>
  The claim has \<open>onProgress\<close> invoked after each region or task, skipped regions
  included, and \<open>current\<close> reaching \<open>total\<close> exactly once. With an empty task list
  \<open>generateOptimizedZip\<close> never calls \<open>onProgress\<close>, so no call has
  \<open>current = total\<close>. With two regions on a page that has no file, \<open>unpackTextures\<close>
  calls it once at the start and once for the page, not once for each region.
\<close>

theorem C9_counterexample:
  "snd (generateOptimizedZip (exampleBrowser True) []) = []
   \<and> snd (unpackTextures (exampleBrowser True) noTexturePages
        [exampleRegion ''a'' ''page.png'' False, exampleRegion ''b'' ''page.png'' True] True)
      = [(0, 2), (2, 2)]"
  by (simp add: generateOptimizedZip_def zipFolder_def unpackTextures_def groupByPage_def
      callOnProgress_def pageImage_def exampleRegion_def noTexturePages_def Let_def)

text \<open>
  Claim C9, amended. \<open>generateOptimizedZip\<close> calls \<open>onProgress (i, n)\<close> once after each
  task, for \<open>i\<close> from 1 to the number \<open>n\<close> of tasks in this order, and makes no call
  for an empty list; for a list that is not empty the last call is \<open>(n, n)\<close>, the only
  one with \<open>current = total\<close>. \<open>unpackTextures\<close> with a callback takes the pages in
  the order of their first region, each with its regions in order, and calls
  \<open>onProgress (0, total)\<close> first; then, with \<open>before\<close> the number of regions of the
  pages already taken, a page that loaded adds one call after each of its regions,
  with \<open>current\<close> from \<open>before + 1\<close> to \<open>before\<close> plus its number of regions, and a
  page that is missing or does not decode adds the single call with \<open>current\<close> equal
  to \<open>before\<close> plus its number of regions. So \<open>total\<close> is the number of all regions
  in every call, the values of \<open>current\<close> increase strictly, and the last call has
  \<open>current = total\<close> and is the only one.
\<close>

theorem C9_progress_calls:
  "snd (generateOptimizedZip browser tasks) = map (\<lambda>i. (i, length tasks)) [1 ..< Suc (length tasks)]
   \<and> (tasks \<noteq> [] \<longrightarrow>
        last (snd (generateOptimizedZip browser tasks)) = (length tasks, length tasks)
        \<and> length (filter (\<lambda>c. fst c = length tasks) (snd (generateOptimizedZip browser tasks))) = 1)
   \<and> groupByPage atlasMetadata =
        map (\<lambda>p. (p, filter (\<lambda>r. pageName r = p) atlasMetadata))
          (rev (remdups (rev (map pageName atlasMetadata))))
   \<and> snd (unpackTextures browser texturePages atlasMetadata True) =
        (0, length atlasMetadata) #
        concat (map (\<lambda>i. case groupByPage atlasMetadata ! i of (p, rs) \<Rightarrow>
            (let before = sum_list (map (\<lambda>(p, rs). length rs) (take i (groupByPage atlasMetadata)))
             in if pageImage browser texturePages p = None
                then [(before + length rs, length atlasMetadata)]
                else map (\<lambda>j. (j, length atlasMetadata)) [Suc before ..< Suc before + length rs]))
          [0..<length (groupByPage atlasMetadata)])
   \<and> snd (unpackTextures browser texturePages atlasMetadata True) \<noteq> []
   \<and> hd (snd (unpackTextures browser texturePages atlasMetadata True)) = (0, length atlasMetadata)
   \<and> (\<forall>c \<in> set (snd (unpackTextures browser texturePages atlasMetadata True)).
         snd c = length atlasMetadata)
   \<and> sorted_wrt (<) (map fst (snd (unpackTextures browser texturePages atlasMetadata True)))
   \<and> fst (last (snd (unpackTextures browser texturePages atlasMetadata True))) = length atlasMetadata
   \<and> length (filter (\<lambda>c. fst c = length atlasMetadata)
        (snd (unpackTextures browser texturePages atlasMetadata True))) = 1
   \<and> length (snd (unpackTextures browser texturePages atlasMetadata True)) =
        1 + sum_list (map (\<lambda>(p, rs). if pageImage browser texturePages p = None then 1 else length rs)
              (groupByPage atlasMetadata))"
proof -
  let ?n = "length atlasMetadata"
  let ?st0 = "\<lparr> unpacked = Map.empty, processedCount = 0, unpackProgress = [(0, ?n)] \<rparr>"
  let ?st = "processPages browser texturePages True ?n (groupByPage atlasMetadata) ?st0"
  let ?calls = "snd (unpackTextures browser texturePages atlasMetadata True)"
  have calls: "?calls = unpackProgress ?st"
    by (rule unpackTextures_progress)
  have groups: "groupByPage atlasMetadata =
        map (\<lambda>p. (p, filter (\<lambda>r. pageName r = p) atlasMetadata))
          (rev (remdups (rev (map pageName atlasMetadata))))"
    by (rule groupByPage_eq)
  have exact: "unpackProgress ?st =
        (0, length atlasMetadata) #
        concat (map (\<lambda>i. case groupByPage atlasMetadata ! i of (p, rs) \<Rightarrow>
            (let before = sum_list (map (\<lambda>(p, rs). length rs) (take i (groupByPage atlasMetadata)))
             in if pageImage browser texturePages p = None
                then [(before + length rs, length atlasMetadata)]
                else map (\<lambda>j. (j, length atlasMetadata)) [Suc before ..< Suc before + length rs]))
          [0..<length (groupByPage atlasMetadata)])"
    unfolding processPages_exact by simp
  have inv: "hd (unpackProgress ?st) = (0, ?n)
    \<and> (\<forall>c \<in> set (unpackProgress ?st). snd c = ?n)
    \<and> sorted_wrt (<) (map fst (unpackProgress ?st))
    \<and> fst (last (unpackProgress ?st)) = processedCount ?st
    \<and> unpackProgress ?st \<noteq> []"
    by (rule processPages_invariant [OF groupByPage_nonempty]) simp_all
  have count: "processedCount ?st = ?n"
    by (simp add: processPages_count groupByPage_sizes)
  have number: "length (unpackProgress ?st) =
        1 + sum_list (map (\<lambda>(p, rs). if pageImage browser texturePages p = None then 1 else length rs)
              (groupByPage atlasMetadata))"
    by (simp add: processPages_calls)
  have once: "length (filter (\<lambda>c. fst c = ?n) (unpackProgress ?st)) = 1"
    using inv count by (intro reached_once) simp_all
  have pack: "snd (generateOptimizedZip browser tasks) = map (\<lambda>i. (i, length tasks)) [1 ..< Suc (length tasks)]"
    by (rule generateOptimizedZip_progress)
  have pack_last: "last (snd (generateOptimizedZip browser tasks)) = (length tasks, length tasks)"
    and pack_once: "length (filter (\<lambda>c. fst c = length tasks) (snd (generateOptimizedZip browser tasks))) = 1"
    if "tasks \<noteq> []"
  proof -
    have len: "0 < length tasks" using that by simp
    then have ne: "[1 ..< Suc (length tasks)] \<noteq> []" by (simp del: upt_Suc)
    have "last (map (\<lambda>i. (i, length tasks)) [1 ..< Suc (length tasks)])
            = (last [1 ..< Suc (length tasks)], length tasks)"
      using ne by (rule last_map)
    then show l: "last (snd (generateOptimizedZip browser tasks)) = (length tasks, length tasks)"
      using len by (simp add: pack del: upt_Suc)
    have "sorted_wrt (<) (map fst (snd (generateOptimizedZip browser tasks)))"
      by (simp add: pack comp_def del: upt_Suc)
    moreover have "snd (generateOptimizedZip browser tasks) \<noteq> []"
      using ne by (simp add: pack del: upt_Suc)
    ultimately show "length (filter (\<lambda>c. fst c = length tasks) (snd (generateOptimizedZip browser tasks))) = 1"
      using l by (intro reached_once) simp_all
  qed
  have i1: "hd (unpackProgress ?st) = (0, ?n)"
    and i2: "\<forall>c \<in> set (unpackProgress ?st). snd c = ?n"
    and i3: "sorted_wrt (<) (map fst (unpackProgress ?st))"
    and i4: "fst (last (unpackProgress ?st)) = ?n"
    and i5: "unpackProgress ?st \<noteq> []"
    using inv count by simp_all
  have packed: "tasks \<noteq> [] \<longrightarrow>
        last (snd (generateOptimizedZip browser tasks)) = (length tasks, length tasks)
        \<and> length (filter (\<lambda>c. fst c = length tasks) (snd (generateOptimizedZip browser tasks))) = 1"
    using pack_last pack_once by blast
  show ?thesis
    unfolding calls
    using pack packed groups exact i5 i1 i2 i3 i4 once number
    by (intro conjI) assumption+
qed

text \<open>
  Two tasks give the calls \<open>(1, 2), (2, 2)\<close>. Four regions, \<open>a\<close> and \<open>c\<close> on the
  page \<open>p1\<close> that loads and \<open>b\<close> and \<open>d\<close> on the page \<open>p2\<close> that has no file, give
  \<open>(0, 4), (1, 4), (2, 4), (4, 4)\<close>.
\<close>

theorem C9_witness:
  "[exampleTask ''a.png'' 8 8 4 4, exampleTask ''b.png'' 8 8 8 8] \<noteq> []
   \<and> snd (generateOptimizedZip (exampleBrowser True)
          [exampleTask ''a.png'' 8 8 4 4, exampleTask ''b.png'' 8 8 8 8]) = [(1, 2), (2, 2)]
   \<and> map fst (groupByPage
          [exampleRegion ''a'' ''p1'' False, exampleRegion ''b'' ''p2'' False,
           exampleRegion ''c'' ''p1'' True, exampleRegion ''d'' ''p2'' True]) = [''p1'', ''p2'']
   \<and> map (map regionName \<circ> snd) (groupByPage
          [exampleRegion ''a'' ''p1'' False, exampleRegion ''b'' ''p2'' False,
           exampleRegion ''c'' ''p1'' True, exampleRegion ''d'' ''p2'' True])
       = [[''a'', ''c''], [''b'', ''d'']]
   \<and> snd (unpackTextures (exampleBrowser True) [''p1'' \<mapsto> ''PAGE'']
          [exampleRegion ''a'' ''p1'' False, exampleRegion ''b'' ''p2'' False,
           exampleRegion ''c'' ''p1'' True, exampleRegion ''d'' ''p2'' True] True)
       = [(0, 4), (1, 4), (2, 4), (4, 4)]
   \<and> (0::nat) < 1 \<and> (1::nat) < 2 \<and> (2::nat) < 4"
  using C9_progress_calls [where browser = "exampleBrowser True"
      and tasks = "[exampleTask ''a.png'' 8 8 4 4, exampleTask ''b.png'' 8 8 8 8]"
      and texturePages = "[''p1'' \<mapsto> ''PAGE'']"
      and atlasMetadata = "[exampleRegion ''a'' ''p1'' False, exampleRegion ''b'' ''p2'' False,
        exampleRegion ''c'' ''p1'' True, exampleRegion ''d'' ''p2'' True]"]
  by (simp add: generateOptimizedZip_def zipFolder_def unpackTextures_def groupByPage_def
      callOnProgress_def pageImage_def extractRegion_def exampleRegion_def exampleBrowser_def Let_def)

subsection \<open>Claim C4: the placement of a region\<close>

lemma rotate_quarter:
  "rotate (- 90 * pi / 180) (Matrix a b c d e f) = Matrix (- c) (- d) a b e f"
proof -
  have "- 90 * pi / 180 = - (pi / 2)" by simp
  then show ?thesis by (simp only: rotate.simps cos_minus sin_minus cos_pi_half sin_pi_half) simp
qed

text \<open>
  The claim has the restored content of the rotated example region occupy 50 pixels
  in width and 30 in height. The transform of the rotated branch sends the corners of
  the rectangle \<open>(0, 0, 50, 30)\<close> to \<open>(5, 50), (5, 0), (35, 50), (35, 0)\<close>: the content
  occupies 30 pixels in width and 50 in height, from \<open>(5, 0)\<close>.
\<close>

theorem C4_counterexample:
  "map footprint (drawCalls (renderRegion ''page''
      \<lparr> regionName = ''sprite'', pageName = ''page.png'', regionX = 0, regionY = 0,
        regionWidth = 50, regionHeight = 30, offsetX = 5, offsetY = 10,
        regionOriginalWidth = 80, regionOriginalHeight = 60, rotated = True \<rparr>))
     = [(5, 0, 30, 50)]
   \<and> map corners (drawCalls (renderRegion ''page''
      \<lparr> regionName = ''sprite'', pageName = ''page.png'', regionX = 0, regionY = 0,
        regionWidth = 50, regionHeight = 30, offsetX = 5, offsetY = 10,
        regionOriginalWidth = 80, regionOriginalHeight = 60, rotated = True \<rparr>))
     = [[(5, 50), (5, 0), (35, 50), (35, 0)]]"
  by (simp add: renderRegion_def footprint_def corners_def identityMatrix_def rotate_quarter Let_def)

text \<open>
  Claim C4, amended: for every atlas region, \<open>extractRegion\<close> draws the packed
  rectangle once on a canvas of \<open>originalWidth\<close> by \<open>originalHeight\<close>. Let
  \<open>destX = offsetX\<close> and \<open>destY = originalHeight - (offsetY + packedSpan)\<close>, where
  \<open>packedSpan\<close> is \<open>region.width\<close> when rotated and \<open>region.height\<close> otherwise. The
  corners of the drawn rectangle land on the rectangle that starts at
  \<open>(destX, destY)\<close> and extends \<open>region.height\<close> to the right and \<open>region.width\<close>
  down when rotated, \<open>region.width\<close> to the right and \<open>region.height\<close> down otherwise.
  So, for a packed rectangle of non-negative size, the content has its top left corner
  at \<open>(destX, destY)\<close> and occupies \<open>region.height\<close> by \<open>region.width\<close> (width by
  height) when rotated and \<open>region.width\<close> by \<open>region.height\<close> otherwise. The blob is
  the encoding of this canvas, and \<^verbatim>\<open>null\<close> when the canvas has no context.
\<close>

theorem C4_region_placement:
  "canvasWidth (renderRegion img region) = regionOriginalWidth region
   \<and> canvasHeight (renderRegion img region) = regionOriginalHeight region
   \<and> map sourceRect (drawCalls (renderRegion img region)) =
       [Some (regionX region, regionY region, regionWidth region, regionHeight region)]
   \<and> (let destX = offsetX region;
           packedSpan = (if rotated region then regionWidth region else regionHeight region);
           destY = regionOriginalHeight region - (offsetY region + packedSpan)
       in map corners (drawCalls (renderRegion img region)) =
            (if rotated region
             then [[(destX, destY + regionWidth region), (destX, destY),
                    (destX + regionHeight region, destY + regionWidth region),
                    (destX + regionHeight region, destY)]]
             else [[(destX, destY), (destX + regionWidth region, destY),
                    (destX, destY + regionHeight region),
                    (destX + regionWidth region, destY + regionHeight region)]])
          \<and> (0 \<le> regionWidth region \<and> 0 \<le> regionHeight region \<longrightarrow>
               map footprint (drawCalls (renderRegion img region)) =
                 [(destX, destY,
                   (if rotated region then regionHeight region else regionWidth region),
                   (if rotated region then regionWidth region else regionHeight region))]))
   \<and> extractRegion browser img region =
       (if getContext browser (regionOriginalWidth region) (regionOriginalHeight region)
        then toBlob browser (renderRegion img region) else None)"
proof (cases "rotated region")
  case True
  then show ?thesis
    by (simp add: renderRegion_def extractRegion_def footprint_def corners_def identityMatrix_def
        rotate_quarter Let_def min_def max_def)
next
  case False
  then show ?thesis
    by (simp add: renderRegion_def extractRegion_def footprint_def corners_def identityMatrix_def
        Let_def min_def max_def)
qed

text \<open>
  The example region of the claim: the canvas is 80 by 60 and the content starts at
  \<open>destX = 5\<close>, \<open>destY = 0\<close>, 30 wide and 50 tall; the same region not rotated starts
  at \<open>(5, 20)\<close>, 50 wide and 30 tall.
\<close>

theorem C4_witness:
  "(0::real) \<le> regionWidth (exampleRegion ''sprite'' ''page.png'' True)
   \<and> (0::real) \<le> regionHeight (exampleRegion ''sprite'' ''page.png'' True)
   \<and> canvasWidth (renderRegion ''page'' (exampleRegion ''sprite'' ''page.png'' True)) = 80
   \<and> canvasHeight (renderRegion ''page'' (exampleRegion ''sprite'' ''page.png'' True)) = 60
   \<and> map footprint (drawCalls (renderRegion ''page'' (exampleRegion ''sprite'' ''page.png'' True)))
        = [(5, 0, 30, 50)]
   \<and> map footprint (drawCalls (renderRegion ''page'' (exampleRegion ''sprite'' ''page.png'' False)))
        = [(5, 20, 50, 30)]"
  using C4_region_placement [where region = "exampleRegion ''sprite'' ''page.png'' True"
      and img = "''page''" and browser = "exampleBrowser True"]
    C4_region_placement [where region = "exampleRegion ''sprite'' ''page.png'' False"
      and img = "''page''" and browser = "exampleBrowser True"]
  by (simp add: exampleRegion_def Let_def)

end
